theory Spec2Isabelle
  imports Main "HOL-Library.AList"
begin

section \<open>Numbers and padding in template strings\<close>

text \<open>
  A template literal such as \<^verbatim>\<open>`testuser${index}`\<close> renders a non-negative integer in
  decimal, most significant digit first and without leading zeros. \<open>digit_char d\<close> is the
  character of the digit \<open>d\<close> (code point 48 is the character 0).
\<close>

definition digit_char :: "nat \<Rightarrow> char" where
  "digit_char d = char_of (48 + d)"

fun show_nat :: "nat \<Rightarrow> string" where
  "show_nat n = (if n < 10 then [digit_char n] else show_nat (n div 10) @ [digit_char (n mod 10)])"

declare show_nat.simps [simp del]

text \<open>A negative integer is rendered with a leading minus sign.\<close>

definition show_int :: "int \<Rightarrow> string" where
  "show_int i = (if i < 0 then ''-'' @ show_nat (nat (- i)) else show_nat (nat i))"

text \<open>
  \<^verbatim>\<open>String.prototype.padStart(targetLength, padString)\<close> with a one-character pad string:
  the string is returned as it is when it already has the target length.
\<close>

definition padStart :: "nat \<Rightarrow> char \<Rightarrow> string \<Rightarrow> string" where
  "padStart targetLength c s = replicate (targetLength - length s) c @ s"

section \<open>Entities (utils/DatabaseModels.ts)\<close>

text \<open>
  The interfaces \<open>User\<close>, \<open>Product\<close>, \<open>Order\<close> and \<open>OrderItem\<close>. Their optional members
  \<open>id\<close>, \<open>created_at\<close> and \<open>updated_at\<close> are assigned by the store; no create operation
  reads them and no generator sets them, and the records leave them out. Other optional
  members are options. The amounts of money of an entity to create (\<open>price\<close>,
  \<open>total_amount\<close>, ...) are counted in hundredths, which is what the generator below and
  the tests produce and what a \<^verbatim>\<open>DECIMAL(10,2)\<close> column holds of any amount; an updates
  object carries numbers of any scale (\<open>Decimal\<close> below).
\<close>

type_synonym decimal = int

record User =
  username :: string
  email :: string
  password :: string
  first_name :: string
  last_name :: string
  phone :: "string option"
  address :: "string option"
  city :: "string option"
  state :: "string option"
  zip_code :: "string option"
  country :: "string option"

record Product =
  name :: string
  description :: string
  price :: decimal
  category :: string
  brand :: string
  stock_quantity :: int
  sku :: string
  image_url :: "string option"
  is_active :: bool

text \<open>
  \<^verbatim>\<open>export enum OrderStatus { PENDING = 'pending', CONFIRMED = 'confirmed', SHIPPED = 'shipped',
  DELIVERED = 'delivered', CANCELLED = 'cancelled' }\<close>: the enum of the database layer, with
  the string each member stands for.
\<close>

datatype OrderStatus = PENDING | CONFIRMED | SHIPPED | DELIVERED | CANCELLED

fun OrderStatus_value :: "OrderStatus \<Rightarrow> string" where
  "OrderStatus_value PENDING = ''pending''"
| "OrderStatus_value CONFIRMED = ''confirmed''"
| "OrderStatus_value SHIPPED = ''shipped''"
| "OrderStatus_value DELIVERED = ''delivered''"
| "OrderStatus_value CANCELLED = ''cancelled''"

text \<open>\<^verbatim>\<open>Object.values(OrderStatus)\<close>, in declaration order.\<close>

definition OrderStatus_members :: "OrderStatus list" where
  "OrderStatus_members = [PENDING, CONFIRMED, SHIPPED, DELIVERED, CANCELLED]"

definition OrderStatus_values :: "string list" where
  "OrderStatus_values = map OrderStatus_value OrderStatus_members"

record Order =
  user_id :: int
  order_number :: string
  total_amount :: decimal
  status :: OrderStatus
  shipping_address :: string
  billing_address :: string
  payment_method :: string

record OrderItem =
  order_id :: int
  product_id :: int
  quantity :: int
  unit_price :: decimal
  total_price :: decimal

section \<open>Status strings of the RPC layer (utils/constants.ts)\<close>

text \<open>
  \<^verbatim>\<open>export const STATUS = { PENDING: "pending", PROCESSING: "processing", SHIPPED: "shipped",
  DELIVERED: "delivered", CANCELLED: "cancelled" }\<close>, as its key/value pairs.
\<close>

definition STATUS :: "(string \<times> string) list" where
  "STATUS = [(''PENDING'', ''pending''), (''PROCESSING'', ''processing''),
             (''SHIPPED'', ''shipped''), (''DELIVERED'', ''delivered''),
             (''CANCELLED'', ''cancelled'')]"

definition STATUS_values :: "string list" where
  "STATUS_values = map snd STATUS"

section \<open>Test data generator (class DatabaseTestData)\<close>

text \<open>
  \<^verbatim>\<open>generateUsers(count)\<close> builds one user for each index 1, ..., count; every member is
  computed from the index alone.
\<close>

definition generateUsers :: "nat \<Rightarrow> User list" where
  "generateUsers count =
     map (\<lambda>index.
        \<lparr>username = ''testuser'' @ show_nat index,
         email = ''testuser'' @ show_nat index @ ''@example.com'',
         password = ''password'' @ show_nat index,
         first_name = ''Test'' @ show_nat index,
         last_name = ''User'' @ show_nat index,
         phone = Some (''+1-555-'' @ padStart 3 CHR ''0'' (show_nat index) @ ''-''
                        @ padStart 4 CHR ''0'' (show_nat index)),
         address = Some (show_nat index @ '' Test Street''),
         city = Some ''Test City'',
         state = Some ''TS'',
         zip_code = Some (padStart 5 CHR ''0'' (show_nat index)),
         country = Some ''Test Country''\<rparr>)
       (map (\<lambda>i. i + 1) [0..<count])"

text \<open>
  \<^verbatim>\<open>generateProducts(count)\<close> draws \<open>price\<close>, \<open>stock_quantity\<close> and \<open>is_active\<close> of each
  product from \<^verbatim>\<open>Math.random()\<close>. The three results of the floating-point computation are
  an input here: \<open>draw i\<close> holds them for the product of position \<open>i\<close>.
\<close>

record product_draw =
  draw_price :: decimal
  draw_stock :: int
  draw_active :: bool

definition categories :: "string list" where
  "categories = [''Electronics'', ''Clothing'', ''Books'', ''Home & Garden'', ''Sports'']"

definition brands :: "string list" where
  "brands = [''TestBrand'', ''SampleCorp'', ''DemoInc'', ''MockLtd'', ''FakeCo'']"

definition generateProducts :: "nat \<Rightarrow> (nat \<Rightarrow> product_draw) \<Rightarrow> Product list" where
  "generateProducts count draw =
     map (\<lambda>i.
        let category = categories ! (i mod length categories);
            brand = brands ! (i mod length brands)
        in \<lparr>name = ''Test Product '' @ show_nat (i + 1),
            description = ''This is a test product '' @ show_nat (i + 1)
               @ '' for testing purposes. It belongs to the '' @ category @ '' category.'',
            price = draw_price (draw i),
            category = category,
            brand = brand,
            stock_quantity = draw_stock (draw i),
            sku = ''SKU-'' @ padStart 6 CHR ''0'' (show_nat (i + 1)),
            image_url = Some (''https://example.com/images/product'' @ show_nat (i + 1) @ ''.jpg''),
            is_active = draw_active (draw i)\<rparr>)
       [0..<count]"

text \<open>
  \<^verbatim>\<open>generateOrders(userIds, count)\<close> maps over \<open>userIds\<close> (it never reads \<open>count\<close>). Each
  order calls \<^verbatim>\<open>Date.now()\<close> and \<^verbatim>\<open>Math.random()\<close>: \<open>stamp index\<close> is the millisecond
  timestamp read for the order of that position, \<open>suffix index\<close> the string
  \<^verbatim>\<open>Math.random().toString(36).substring(2, 8)\<close>, and \<open>amount index\<close> the random total.
\<close>

definition paymentMethods :: "string list" where
  "paymentMethods = [''Credit Card'', ''PayPal'', ''Bank Transfer'', ''Cash on Delivery'']"

definition generateOrders ::
  "int list \<Rightarrow> nat \<Rightarrow> (nat \<Rightarrow> nat) \<Rightarrow> (nat \<Rightarrow> string) \<Rightarrow> (nat \<Rightarrow> decimal) \<Rightarrow> Order list" where
  "generateOrders userIds count stamp suffix amount =
     map (\<lambda>(index, userId).
        let status = OrderStatus_members ! (index mod length OrderStatus_members);
            paymentMethod = paymentMethods ! (index mod length paymentMethods);
            timestamp = stamp index;
            randomSuffix = suffix index
        in \<lparr>user_id = userId,
            order_number = ''ORD-'' @ show_nat timestamp @ ''-'' @ show_nat (index + 1) @ ''-''
               @ randomSuffix,
            total_amount = amount index,
            status = status,
            shipping_address = show_nat (index + 1) @ '' Shipping Street, Test City, TS ''
               @ padStart 5 CHR ''0'' (show_nat (index + 1)),
            billing_address = show_nat (index + 1) @ '' Billing Street, Test City, TS ''
               @ padStart 5 CHR ''0'' (show_nat (index + 1)),
            payment_method = paymentMethod\<rparr>)
       (zip [0..<length userIds] userIds)"

text \<open>
  The single-instance generators read \<^verbatim>\<open>Date.now()\<close> and the random suffix once; both are
  arguments here.
\<close>

definition generateSingleUser :: "nat \<Rightarrow> string \<Rightarrow> User" where
  "generateSingleUser timestamp randomSuffix =
     \<lparr>username = ''singletestuser_'' @ show_nat timestamp @ ''_'' @ randomSuffix,
      email = ''singletestuser_'' @ show_nat timestamp @ ''_'' @ randomSuffix @ ''@example.com'',
      password = ''testpassword123'',
      first_name = ''Single'',
      last_name = ''TestUser'',
      phone = Some ''+1-555-123-4567'',
      address = Some ''123 Single Test Street'',
      city = Some ''Single Test City'',
      state = Some ''ST'',
      zip_code = Some ''12345'',
      country = Some ''Single Test Country''\<rparr>"

definition generateSingleProduct :: "nat \<Rightarrow> string \<Rightarrow> Product" where
  "generateSingleProduct timestamp randomSuffix =
     \<lparr>name = ''Single Test Product '' @ show_nat timestamp,
      description = ''This is a single test product for individual testing scenarios.'',
      price = 9999,
      category = ''Electronics'',
      brand = ''SingleTestBrand'',
      stock_quantity = 50,
      sku = ''SKU-SINGLE-'' @ show_nat timestamp @ ''-'' @ randomSuffix,
      image_url = Some ''https://example.com/images/single-product.jpg'',
      is_active = True\<rparr>"

definition generateSingleOrder :: "int \<Rightarrow> nat \<Rightarrow> string \<Rightarrow> Order" where
  "generateSingleOrder userId timestamp randomSuffix =
     \<lparr>user_id = userId,
      order_number = ''ORD-SINGLE-'' @ show_nat timestamp @ ''-'' @ randomSuffix,
      total_amount = 19999,
      status = PENDING,
      shipping_address = ''123 Single Shipping Street, Single Test City, ST 12345'',
      billing_address = ''123 Single Billing Street, Single Test City, ST 12345'',
      payment_method = ''Credit Card''\<rparr>"

section \<open>The relational store\<close>

text \<open>
  The store is the PostgreSQL database behind \<^verbatim>\<open>DatabaseConnection.query\<close>. The repository holds
  its schema (\<^verbatim>\<open>CREATE_TABLES_QUERIES\<close> in utils/DatabaseModels.ts) and the texts of the
  statements the service sends; the engine itself is an external collaborator. The embedding
  gives the statements the meaning the schema fixes: \<^verbatim>\<open>SERIAL PRIMARY KEY\<close>, \<^verbatim>\<open>NOT NULL\<close>,
  \<^verbatim>\<open>UNIQUE\<close>, \<^verbatim>\<open>REFERENCES ... ON DELETE CASCADE\<close> and \<^verbatim>\<open>DEFAULT\<close>.

  A value is what the service binds to a statement as well as what a column holds.
  A JavaScript \<^verbatim>\<open>undefined\<close> or \<^verbatim>\<open>null\<close> is \<open>Null\<close>. A JavaScript number that is an integer
  is \<open>Number i\<close>; \<open>Decimal m k\<close> is the number \<open>m / 10 ^ k\<close>, so that 12.345 is
  \<open>Decimal 12345 3\<close>, and a \<^verbatim>\<open>DECIMAL(10,2)\<close> column holds its amounts as \<open>Decimal h 2\<close>.
  \<^verbatim>\<open>NaN\<close> and the infinities are left out. \<open>Timestamp\<close> is a point in time
  (a JavaScript \<^verbatim>\<open>Date\<close>, a \<^verbatim>\<open>TIMESTAMP\<close>).
\<close>

datatype val = Null | Number int | Str string | Bool bool | Decimal int nat | Timestamp nat

text \<open>A row is the object the driver returns for it: column names with their values.\<close>

type_synonym row = "(string \<times> val) list"

text \<open>
  What a rejected promise carries. \<open>Error msg\<close> is \<^verbatim>\<open>new Error(msg)\<close> thrown by the service
  itself and \<open>TypeError\<close> a property read on \<^verbatim>\<open>undefined\<close>; the others are errors of the
  store, named after their SQLSTATE conditions: 23505, 23502, 23503, 22003 (an integer
  outside the range of \<^verbatim>\<open>INTEGER\<close>, an amount too large for its \<^verbatim>\<open>DECIMAL\<close>), 22001 (a
  string too long for its \<^verbatim>\<open>VARCHAR\<close>), 22P02 (a text the column's type cannot read),
  2200H (the sequence of a \<^verbatim>\<open>SERIAL\<close> column has run out), 42703, 42601 and 08P01.
\<close>

datatype error =
    UniqueViolation string
  | NotNullViolation string
  | ForeignKeyViolation string
  | NumericValueOutOfRange
  | StringDataRightTruncation
  | InvalidTextRepresentation
  | SequenceGeneratorLimitExceeded
  | UndefinedColumn string
  | MultipleAssignments string
  | MissingParameter
  | Error string
  | TypeError

fun store_error :: "error \<Rightarrow> bool" where
  "store_error (Error _) = False"
| "store_error TypeError = False"
| "store_error _ = True"

datatype tbl = Users | Products | Orders | OrderItems

datatype coltype = INTEGER | VARCHAR nat | TEXT | DECIMAL nat nat | BOOLEAN | TIMESTAMP

datatype dflt = NoDefault | Serial | CurrentTimestamp | Const val

record column =
  cname :: string
  ctype :: coltype
  not_null :: bool
  uniq :: bool
  dflt :: dflt
  refs :: "tbl option"

definition mk_column :: "string \<Rightarrow> coltype \<Rightarrow> bool \<Rightarrow> bool \<Rightarrow> dflt \<Rightarrow> tbl option \<Rightarrow> column" where
  "mk_column n ty nn un d rf = \<lparr>cname = n, ctype = ty, not_null = nn, uniq = un, dflt = d, refs = rf\<rparr>"

text \<open>
  \<^verbatim>\<open>CREATE_TABLES_QUERIES\<close>, column by column: name, type, \<^verbatim>\<open>NOT NULL\<close>, \<^verbatim>\<open>UNIQUE\<close>, default,
  referenced table. \<^verbatim>\<open>id SERIAL PRIMARY KEY\<close> is an integer that is not null, unique and
  drawn from the table's sequence; a \<^verbatim>\<open>REFERENCES t(id) ON DELETE CASCADE\<close> column names \<open>t\<close>.
\<close>

fun columns :: "tbl \<Rightarrow> column list" where
  "columns Users =
     [mk_column ''id'' INTEGER True True Serial None,
      mk_column ''username'' (VARCHAR 50) True True NoDefault None,
      mk_column ''email'' (VARCHAR 100) True True NoDefault None,
      mk_column ''password'' (VARCHAR 255) True False NoDefault None,
      mk_column ''first_name'' (VARCHAR 50) True False NoDefault None,
      mk_column ''last_name'' (VARCHAR 50) True False NoDefault None,
      mk_column ''phone'' (VARCHAR 20) False False NoDefault None,
      mk_column ''address'' TEXT False False NoDefault None,
      mk_column ''city'' (VARCHAR 50) False False NoDefault None,
      mk_column ''state'' (VARCHAR 50) False False NoDefault None,
      mk_column ''zip_code'' (VARCHAR 20) False False NoDefault None,
      mk_column ''country'' (VARCHAR 50) False False NoDefault None,
      mk_column ''created_at'' TIMESTAMP False False CurrentTimestamp None,
      mk_column ''updated_at'' TIMESTAMP False False CurrentTimestamp None]"
| "columns Products =
     [mk_column ''id'' INTEGER True True Serial None,
      mk_column ''name'' (VARCHAR 200) True False NoDefault None,
      mk_column ''description'' TEXT False False NoDefault None,
      mk_column ''price'' (DECIMAL 10 2) True False NoDefault None,
      mk_column ''category'' (VARCHAR 100) True False NoDefault None,
      mk_column ''brand'' (VARCHAR 100) True False NoDefault None,
      mk_column ''stock_quantity'' INTEGER True False (Const (Number 0)) None,
      mk_column ''sku'' (VARCHAR 50) True True NoDefault None,
      mk_column ''image_url'' TEXT False False NoDefault None,
      mk_column ''is_active'' BOOLEAN False False (Const (Bool True)) None,
      mk_column ''created_at'' TIMESTAMP False False CurrentTimestamp None,
      mk_column ''updated_at'' TIMESTAMP False False CurrentTimestamp None]"
| "columns Orders =
     [mk_column ''id'' INTEGER True True Serial None,
      mk_column ''user_id'' INTEGER False False NoDefault (Some Users),
      mk_column ''order_number'' (VARCHAR 50) True True NoDefault None,
      mk_column ''total_amount'' (DECIMAL 10 2) True False NoDefault None,
      mk_column ''status'' (VARCHAR 20) False False (Const (Str ''pending'')) None,
      mk_column ''shipping_address'' TEXT True False NoDefault None,
      mk_column ''billing_address'' TEXT True False NoDefault None,
      mk_column ''payment_method'' (VARCHAR 50) True False NoDefault None,
      mk_column ''created_at'' TIMESTAMP False False CurrentTimestamp None,
      mk_column ''updated_at'' TIMESTAMP False False CurrentTimestamp None]"
| "columns OrderItems =
     [mk_column ''id'' INTEGER True True Serial None,
      mk_column ''order_id'' INTEGER False False NoDefault (Some Orders),
      mk_column ''product_id'' INTEGER False False NoDefault (Some Products),
      mk_column ''quantity'' INTEGER True False NoDefault None,
      mk_column ''unit_price'' (DECIMAL 10 2) True False NoDefault None,
      mk_column ''total_price'' (DECIMAL 10 2) True False NoDefault None]"

text \<open>
  The column lists of the four \<^verbatim>\<open>INSERT INTO t (...) VALUES ($1, ...) RETURNING *\<close> texts of
  the service. A column the list leaves out takes its default.
\<close>

fun insert_columns :: "tbl \<Rightarrow> string list" where
  "insert_columns Users =
     [''username'', ''email'', ''password'', ''first_name'', ''last_name'', ''phone'',
      ''address'', ''city'', ''state'', ''zip_code'', ''country'']"
| "insert_columns Products =
     [''name'', ''description'', ''price'', ''category'', ''brand'', ''stock_quantity'',
      ''sku'', ''image_url'', ''is_active'']"
| "insert_columns Orders =
     [''user_id'', ''order_number'', ''total_amount'', ''status'', ''shipping_address'',
      ''billing_address'', ''payment_method'']"
| "insert_columns OrderItems =
     [''order_id'', ''product_id'', ''quantity'', ''unit_price'', ''total_price'']"

text \<open>
  The driver sends every parameter as text (\<^verbatim>\<open>String(value)\<close> for a number or a boolean)
  and the store reads the text with the input function of the type of the column the
  parameter stands for. What comes of it is fixed below where the kinds agree and where
  the text of a number or a boolean is read. What the input functions make of an arbitrary
  string sent for a column that is not a text column, of the text of a \<^verbatim>\<open>Date\<close> (which depends
  on the time zone of the process) or of the text of a number that JavaScript does not
  print digit by digit, is not fixed here: it is a parameter of the store,
  \<open>conversions\<close>, which answers with the value read or with \<open>None\<close> when the text is
  rejected.
\<close>

type_synonym conversions = "coltype \<Rightarrow> val \<Rightarrow> val option"

text \<open>
  The tables, for each the next value of its \<^verbatim>\<open>SERIAL\<close> sequence, and the conversions of the
  engine.
\<close>

record store =
  rows :: "tbl \<Rightarrow> row list"
  seq :: "tbl \<Rightarrow> int"
  conversions :: conversions

definition init_store :: "conversions \<Rightarrow> store" where
  "init_store cv = \<lparr>rows = (\<lambda>_. []), seq = (\<lambda>_. 1), conversions = cv\<rparr>"

text \<open>
  The statements the service sends, one constructor for each shape of text:
  \<^item> \<open>Insert t params\<close>: \<^verbatim>\<open>INSERT INTO t (insert_columns t) VALUES ($1, ...) RETURNING *\<close>;
  \<^item> \<open>Select t c v\<close>: \<^verbatim>\<open>SELECT * FROM t WHERE c = $1\<close>;
  \<^item> \<open>Update t fields params\<close>:
    \<^verbatim>\<open>UPDATE t SET f1 = $2, f2 = $3, ..., updated_at = CURRENT_TIMESTAMP WHERE id = $1 RETURNING *\<close>,
    the text \<^verbatim>\<open>updateUser\<close> and \<^verbatim>\<open>updateProduct\<close> build from \<open>fields\<close>; the first parameter is
    the id. \<^verbatim>\<open>updateOrderStatus\<close> sends the same statement for the one field \<open>status\<close> (its
    text numbers the two parameters the other way round);
  \<^item> \<open>Delete t v\<close>: \<^verbatim>\<open>DELETE FROM t WHERE id = $1 RETURNING id\<close>;
  \<^item> \<open>Truncate ts\<close>: \<^verbatim>\<open>TRUNCATE TABLE ts RESTART IDENTITY CASCADE;\<close>
  \<^item> \<open>DeleteAll t\<close>: \<^verbatim>\<open>DELETE FROM t;\<close>
  \<^item> \<open>Count t\<close>: \<^verbatim>\<open>SELECT COUNT(*) FROM t\<close>.
\<close>

datatype stmt =
    Insert tbl "val list"
  | Select tbl string val
  | Update tbl "string list" "val list"
  | Delete tbl val
  | Truncate "tbl list"
  | DeleteAll tbl
  | Count tbl

definition col :: "row \<Rightarrow> string \<Rightarrow> val" where
  "col r c = (case map_of r c of Some v \<Rightarrow> v | None \<Rightarrow> Null)"

definition column_named :: "tbl \<Rightarrow> string \<Rightarrow> column option" where
  "column_named t c = find (\<lambda>k. cname k = c) (columns t)"

text \<open>
  The range of \<^verbatim>\<open>INTEGER\<close> (four bytes, signed), and the integers JavaScript prints digit by
  digit whatever their size (up to \<^verbatim>\<open>Number.MAX_SAFE_INTEGER\<close>). From \<open>10 ^ 21\<close> on
  \<^verbatim>\<open>String\<close> switches to the exponent notation, which \<^verbatim>\<open>INTEGER\<close> does not read.
\<close>

definition in_integer_range :: "int \<Rightarrow> bool" where
  "in_integer_range i \<longleftrightarrow> - 2147483648 \<le> i \<and> i \<le> 2147483647"

definition safe_integer :: "int \<Rightarrow> bool" where
  "safe_integer i \<longleftrightarrow> \<bar>i\<bar> \<le> 9007199254740991"

text \<open>A number that is an integer is that integer, however it is written.\<close>

fun integral :: "val \<Rightarrow> val" where
  "integral (Decimal m k) = (if m mod 10 ^ k = 0 then Number (m div 10 ^ k) else Decimal m k)"
| "integral v = v"

text \<open>
  The input function of a column type on the text of a parameter, where it is fixed
  (\<open>None\<close> where it is not):
  \<^item> null is read as null by every type;
  \<^item> \<^verbatim>\<open>INTEGER\<close> reads an integer within its range, rejects one outside it (22003) and
    rejects the text of a number with a fraction and \<^verbatim>\<open>'true'\<close> and \<^verbatim>\<open>'false'\<close> (22P02);
  \<^item> \<^verbatim>\<open>VARCHAR\<close> and \<^verbatim>\<open>TEXT\<close> take a string as it is, an integer as its decimal digits and
    a boolean as \<^verbatim>\<open>'true'\<close> or \<^verbatim>\<open>'false'\<close>; the width of a \<^verbatim>\<open>VARCHAR\<close> is not looked at
    here but when the value is assigned to the column (\<open>fit\<close> below), so that a
    \<^verbatim>\<open>WHERE email = $1\<close> compares with the whole string;
  \<^item> \<^verbatim>\<open>DECIMAL\<close> reads every number;
  \<^item> \<^verbatim>\<open>BOOLEAN\<close> reads a boolean, and the texts \<^verbatim>\<open>'1'\<close> and \<^verbatim>\<open>'0'\<close> as true and false;
  \<^item> \<^verbatim>\<open>TIMESTAMP\<close> reads a timestamp and rejects \<^verbatim>\<open>'true'\<close> and \<^verbatim>\<open>'false'\<close>.
\<close>

fun text_input :: "val \<Rightarrow> (error + val) option" where
  "text_input (Str s) = Some (Inr (Str s))"
| "text_input (Number i) = (if safe_integer i then Some (Inr (Str (show_int i))) else None)"
| "text_input (Bool b) = Some (Inr (Str (if b then ''true'' else ''false'')))"
| "text_input v = None"

fun own_input :: "coltype \<Rightarrow> val \<Rightarrow> (error + val) option" where
  "own_input ty Null = Some (Inr Null)"
| "own_input INTEGER (Number i) =
     Some (if \<bar>i\<bar> \<ge> 1000000000000000000000 then Inl InvalidTextRepresentation
           else if in_integer_range i then Inr (Number i)
           else Inl NumericValueOutOfRange)"
| "own_input INTEGER (Decimal m k) = Some (Inl InvalidTextRepresentation)"
| "own_input INTEGER (Bool b) = Some (Inl InvalidTextRepresentation)"
| "own_input (VARCHAR n) v = text_input v"
| "own_input TEXT v = text_input v"
| "own_input (DECIMAL p d) (Number i) = Some (Inr (Decimal i 0))"
| "own_input (DECIMAL p d) (Decimal m k) = Some (Inr (Decimal m k))"
| "own_input (DECIMAL p d) (Bool b) = Some (Inl InvalidTextRepresentation)"
| "own_input BOOLEAN (Bool b) = Some (Inr (Bool b))"
| "own_input BOOLEAN (Number i) =
     Some (if i = 1 then Inr (Bool True) else if i = 0 then Inr (Bool False)
           else Inl InvalidTextRepresentation)"
| "own_input BOOLEAN (Decimal m k) = Some (Inl InvalidTextRepresentation)"
| "own_input TIMESTAMP (Timestamp time) = Some (Inr (Timestamp time))"
| "own_input TIMESTAMP (Bool b) = Some (Inl InvalidTextRepresentation)"
| "own_input ty v = None"

text \<open>
  The value a parameter has once the store has read it as one of type \<open>ty\<close>. Where the
  reading is left to \<open>conversions\<close>, the value it answers with is taken as a value of the
  type as above.
\<close>

definition input :: "conversions \<Rightarrow> coltype \<Rightarrow> val \<Rightarrow> error + val" where
  "input cv ty v =
     (case own_input ty (integral v) of
        Some res \<Rightarrow> res
      | None \<Rightarrow>
          (case cv ty v of
             None \<Rightarrow> Inl InvalidTextRepresentation
           | Some v' \<Rightarrow>
               (case own_input ty v' of
                  Some res \<Rightarrow> res
                | None \<Rightarrow> Inl InvalidTextRepresentation)))"

text \<open>
  \<open>rescale d m k\<close> is \<open>m / 10 ^ k\<close> in units of \<open>10 ^ - d\<close>, rounded to the nearest unit
  and away from zero when half-way, as \<^verbatim>\<open>DECIMAL(p,d)\<close> rounds.
\<close>

definition rescale :: "nat \<Rightarrow> int \<Rightarrow> nat \<Rightarrow> int" where
  "rescale d m k =
     (if k \<le> d then m * 10 ^ (d - k)
      else sgn m * ((\<bar>m\<bar> + 5 * 10 ^ (k - d - 1)) div 10 ^ (k - d)))"

text \<open>
  The value a column of type \<open>ty\<close> holds when the value \<open>v\<close> (read as above) is assigned
  to it:
  \<^item> \<^verbatim>\<open>VARCHAR(n)\<close> keeps a string of at most \<open>n\<close> characters, cuts a longer one down to
    \<open>n\<close> characters when it only loses spaces, and rejects it otherwise (22001);
  \<^item> \<^verbatim>\<open>DECIMAL(p,d)\<close> rounds to \<open>d\<close> decimals and rejects a result of more than \<open>p\<close>
    digits (22003);
  \<^item> every other value is kept as it is.
\<close>

fun fit :: "coltype \<Rightarrow> val \<Rightarrow> error + val" where
  "fit (VARCHAR n) (Str s) =
     (if length s \<le> n then Inr (Str s)
      else if list_all (\<lambda>c. c = CHR '' '') (drop n s) then Inr (Str (take n s))
      else Inl StringDataRightTruncation)"
| "fit (DECIMAL p d) (Decimal m k) =
     (if \<bar>rescale d m k\<bar> \<ge> 10 ^ p then Inl NumericValueOutOfRange
      else Inr (Decimal (rescale d m k) d))"
| "fit ty v = Inr v"

text \<open>
  The first of the names that is not a column of the table (42703), and a list of
  assignments with every value replaced by what \<open>f\<close> makes of it for the type of its
  column, or the first error on the way.
\<close>

definition undefined_column :: "tbl \<Rightarrow> string list \<Rightarrow> error option" where
  "undefined_column t cs = map_option UndefinedColumn (find (\<lambda>c. column_named t c = None) cs)"

fun convert_all ::
  "(coltype \<Rightarrow> val \<Rightarrow> error + val) \<Rightarrow> tbl \<Rightarrow> (string \<times> val) list \<Rightarrow> error + (string \<times> val) list" where
  "convert_all f t [] = Inr []"
| "convert_all f t ((c, v) # as) =
     (case column_named t c of
        None \<Rightarrow> Inl (UndefinedColumn c)
      | Some k \<Rightarrow>
          (case f (ctype k) v of
             Inl e \<Rightarrow> Inl e
           | Inr v' \<Rightarrow>
               (case convert_all f t as of
                  Inl e \<Rightarrow> Inl e
                | Inr as' \<Rightarrow> Inr ((c, v') # as'))))"

text \<open>
  What column \<open>c\<close> of table \<open>t\<close> holds once the parameter \<open>v\<close> has been assigned to it.
\<close>

definition stored :: "store \<Rightarrow> tbl \<Rightarrow> string \<Rightarrow> val \<Rightarrow> error + val" where
  "stored s t c v =
     (case column_named t c of
        None \<Rightarrow> Inl (UndefinedColumn c)
      | Some k \<Rightarrow>
          (case input (conversions s) (ctype k) v of
             Inl e \<Rightarrow> Inl e
           | Inr v' \<Rightarrow> fit (ctype k) v'))"

definition default_value :: "column \<Rightarrow> int \<Rightarrow> nat \<Rightarrow> val" where
  "default_value k i now =
     (case dflt k of NoDefault \<Rightarrow> Null | Serial \<Rightarrow> Number i | CurrentTimestamp \<Rightarrow> Timestamp now
      | Const v \<Rightarrow> v)"

text \<open>
  The row an \<^verbatim>\<open>INSERT\<close> forms: the given value where the statement names the column, the
  default otherwise (\<open>i\<close> is the sequence's next value, \<open>now\<close> is \<^verbatim>\<open>CURRENT_TIMESTAMP\<close>).
\<close>

definition new_row :: "tbl \<Rightarrow> int \<Rightarrow> nat \<Rightarrow> (string \<times> val) list \<Rightarrow> row" where
  "new_row t i now given =
     map (\<lambda>k. (cname k, case map_of given (cname k) of Some v \<Rightarrow> v
                          | None \<Rightarrow> default_value k i now))
       (columns t)"

text \<open>
  The constraint a new or changed row \<open>r\<close> breaks, if any: \<^verbatim>\<open>NOT NULL\<close> first, then
  \<^verbatim>\<open>UNIQUE\<close> against the other rows of the table (nulls never collide), then the foreign
  keys against the referenced table.
\<close>

definition not_null_violation :: "tbl \<Rightarrow> row \<Rightarrow> error option" where
  "not_null_violation t r =
     map_option (\<lambda>k. NotNullViolation (cname k))
       (find (\<lambda>k. not_null k \<and> col r (cname k) = Null) (columns t))"

definition unique_violation :: "tbl \<Rightarrow> row list \<Rightarrow> row \<Rightarrow> error option" where
  "unique_violation t others r =
     map_option (\<lambda>k. UniqueViolation (cname k))
       (find (\<lambda>k. uniq k \<and> col r (cname k) \<noteq> Null
                  \<and> col r (cname k) \<in> set (map (\<lambda>x. col x (cname k)) others))
          (columns t))"

definition foreign_key_violation :: "store \<Rightarrow> tbl \<Rightarrow> row \<Rightarrow> error option" where
  "foreign_key_violation s t r =
     map_option (\<lambda>k. ForeignKeyViolation (cname k))
       (find (\<lambda>k. case refs k of None \<Rightarrow> False
                  | Some parent \<Rightarrow> col r (cname k) \<noteq> Null
                      \<and> col r (cname k) \<notin> set (map (\<lambda>x. col x ''id'') (rows s parent)))
          (columns t))"

definition row_error :: "store \<Rightarrow> tbl \<Rightarrow> row list \<Rightarrow> row \<Rightarrow> error option" where
  "row_error s t others r =
     (case not_null_violation t r of Some e \<Rightarrow> Some e
      | None \<Rightarrow> (case unique_violation t others r of Some e \<Rightarrow> Some e
                 | None \<Rightarrow> foreign_key_violation s t r))"

text \<open>\<^verbatim>\<open>WHERE c = $1\<close>: a null parameter matches no row.\<close>

definition matches :: "string \<Rightarrow> val \<Rightarrow> row \<Rightarrow> bool" where
  "matches c v r = (v \<noteq> Null \<and> col r c = v)"

fun update_first :: "('a \<Rightarrow> bool) \<Rightarrow> 'a \<Rightarrow> 'a list \<Rightarrow> 'a list" where
  "update_first P y [] = []"
| "update_first P y (x # xs) = (if P x then y # xs else x # update_first P y xs)"

definition set_rows :: "store \<Rightarrow> tbl \<Rightarrow> row list \<Rightarrow> store" where
  "set_rows s t rs = s\<lparr>rows := (rows s)(t := rs)\<rparr>"

text \<open>
  \<^verbatim>\<open>ON DELETE CASCADE\<close>: the rows of \<open>child\<close> whose column \<open>c\<close> references a deleted row go
  with it. Deleting a user takes the user's orders and their items, deleting a product or
  an order takes its items.
\<close>

definition delete_referencing :: "store \<Rightarrow> tbl \<Rightarrow> string \<Rightarrow> row list \<Rightarrow> store" where
  "delete_referencing s child c gone =
     set_rows s child [r \<leftarrow> rows s child. col r c \<notin> set (map (\<lambda>x. col x ''id'') gone)]"

fun delete_rows :: "store \<Rightarrow> tbl \<Rightarrow> val \<Rightarrow> store" where
  "delete_rows s Users v =
     (let s1 = set_rows s Users [r \<leftarrow> rows s Users. \<not> matches ''id'' v r];
          gone = [r \<leftarrow> rows s Users. matches ''id'' v r];
          gone_orders = [r \<leftarrow> rows s Orders. col r ''user_id'' \<in> set (map (\<lambda>x. col x ''id'') gone)];
          s2 = delete_referencing s1 Orders ''user_id'' gone
      in delete_referencing s2 OrderItems ''order_id'' gone_orders)"
| "delete_rows s Products v =
     (let s1 = set_rows s Products [r \<leftarrow> rows s Products. \<not> matches ''id'' v r];
          gone = [r \<leftarrow> rows s Products. matches ''id'' v r]
      in delete_referencing s1 OrderItems ''product_id'' gone)"
| "delete_rows s Orders v =
     (let s1 = set_rows s Orders [r \<leftarrow> rows s Orders. \<not> matches ''id'' v r];
          gone = [r \<leftarrow> rows s Orders. matches ''id'' v r]
      in delete_referencing s1 OrderItems ''order_id'' gone)"
| "delete_rows s OrderItems v =
     set_rows s OrderItems [r \<leftarrow> rows s OrderItems. \<not> matches ''id'' v r]"

text \<open>
  \<^verbatim>\<open>DELETE FROM t;\<close> removes every row of \<open>t\<close>, and the rows referencing them go with them
  as above. The sequences keep their values.
\<close>

fun delete_all :: "store \<Rightarrow> tbl \<Rightarrow> store" where
  "delete_all s Users =
     (let s1 = set_rows s Users [];
          gone = rows s Users;
          gone_orders = [r \<leftarrow> rows s Orders. col r ''user_id'' \<in> set (map (\<lambda>x. col x ''id'') gone)];
          s2 = delete_referencing s1 Orders ''user_id'' gone
      in delete_referencing s2 OrderItems ''order_id'' gone_orders)"
| "delete_all s Products =
     (let s1 = set_rows s Products [];
          gone = rows s Products
      in delete_referencing s1 OrderItems ''product_id'' gone)"
| "delete_all s Orders =
     (let s1 = set_rows s Orders [];
          gone = rows s Orders
      in delete_referencing s1 OrderItems ''order_id'' gone)"
| "delete_all s OrderItems = set_rows s OrderItems []"

text \<open>
  \<^verbatim>\<open>TRUNCATE TABLE t ... CASCADE\<close> empties \<open>t\<close> and every table that references it, directly
  or through another table: by the \<^verbatim>\<open>REFERENCES\<close> of the schema, orders reference users and
  order items reference orders and products. \<^verbatim>\<open>RESTART IDENTITY\<close> sets the sequences of the
  emptied tables back to 1.
\<close>

fun cascade :: "tbl \<Rightarrow> tbl list" where
  "cascade Users = [Users, Orders, OrderItems]"
| "cascade Products = [Products, OrderItems]"
| "cascade Orders = [Orders, OrderItems]"
| "cascade OrderItems = [OrderItems]"

definition truncate_tables :: "store \<Rightarrow> tbl list \<Rightarrow> store" where
  "truncate_tables s ts =
     (let emptied = concat (map cascade ts)
      in s\<lparr>rows := (\<lambda>t. if t \<in> set emptied then [] else rows s t),
            seq := (\<lambda>t. if t \<in> set emptied then 1 else seq s t)\<rparr>)"

text \<open>
  One statement against the store at time \<open>now\<close>: the rows it returns or the error it is
  rejected with, and the store afterwards. A statement with parameters goes through the
  steps of the extended protocol:
  \<^item> the text is parsed: a column the table does not have (42703) and, in an \<^verbatim>\<open>UPDATE\<close>, a
    column assigned twice (42601) are found here. The \<^verbatim>\<open>UPDATE\<close> texts of the service
    end in \<^verbatim>\<open>updated_at = CURRENT_TIMESTAMP\<close>, so \<open>updated_at\<close> is always among the columns
    assigned;
  \<^item> the parameters are bound: their number must be that of the placeholders (08P01),
    and each is read by the input function of its type (\<open>input\<close>), the \<open>id\<close> of the
    \<^verbatim>\<open>WHERE\<close> clause first;
  \<^item> the values to be assigned are made to fit their columns (\<open>fit\<close>);
  \<^item> the statement runs. An \<^verbatim>\<open>INSERT\<close> draws the next id from the sequence, which fails
    once the sequence has passed the largest \<^verbatim>\<open>INTEGER\<close> (2200H), and then checks the
    row, so a row rejected by a constraint still uses up an id. An \<^verbatim>\<open>UPDATE\<close> assigns the
    fields and \<open>updated_at\<close>; \<^verbatim>\<open>WHERE id = $1\<close> selects by the primary key, so at most
    one row matches, and the model changes the first match. No statement of the service
    assigns \<open>id\<close> or a referencing column, and \<^verbatim>\<open>UPDATE\<close> does not look at foreign keys
    pointing to the row. \<^verbatim>\<open>DELETE ... RETURNING id\<close> returns the ids of the rows it
    removed.
  \<^item> \<^verbatim>\<open>TRUNCATE\<close> and \<^verbatim>\<open>DELETE FROM t;\<close> return no row. \<^verbatim>\<open>SELECT COUNT(*)\<close> returns one row
    whose \<open>count\<close> the driver hands over as a decimal string (the count is a bigint).
\<close>

fun exec :: "nat \<Rightarrow> store \<Rightarrow> stmt \<Rightarrow> (error + row list) \<times> store" where
  "exec now s (Insert t params) =
     (if length params \<noteq> length (insert_columns t) then (Inl MissingParameter, s)
      else case convert_all (input (conversions s)) t (zip (insert_columns t) params) of
        Inl e \<Rightarrow> (Inl e, s)
      | Inr bound \<Rightarrow>
          (case convert_all fit t bound of
             Inl e \<Rightarrow> (Inl e, s)
           | Inr given \<Rightarrow>
               if seq s t > 2147483647 then (Inl SequenceGeneratorLimitExceeded, s)
               else
                 (let r = new_row t (seq s t) now given;
                      s1 = s\<lparr>seq := (seq s)(t := seq s t + 1)\<rparr>
                  in case row_error s t (rows s t) r of
                       Some e \<Rightarrow> (Inl e, s1)
                     | None \<Rightarrow> (Inr [r], set_rows s1 t (rows s t @ [r])))))"
| "exec now s (Select t c v) =
     (case column_named t c of
        None \<Rightarrow> (Inl (UndefinedColumn c), s)
      | Some k \<Rightarrow>
          (case input (conversions s) (ctype k) v of
             Inl e \<Rightarrow> (Inl e, s)
           | Inr w \<Rightarrow> (Inr [r \<leftarrow> rows s t. matches c w r], s)))"
| "exec now s (Update t flds params) =
     (case undefined_column t (flds @ [''updated_at'']) of
        Some e \<Rightarrow> (Inl e, s)
      | None \<Rightarrow>
          if \<not> distinct (flds @ [''updated_at''])
          then (Inl (MultipleAssignments
                  (hd [c \<leftarrow> flds @ [''updated_at'']. count_list (flds @ [''updated_at'']) c > 1])), s)
          else if length params \<noteq> length flds + 1 then (Inl MissingParameter, s)
          else
            (case input (conversions s) INTEGER (hd params) of
               Inl e \<Rightarrow> (Inl e, s)
             | Inr i \<Rightarrow>
                 (case convert_all (input (conversions s)) t (zip flds (tl params)) of
                    Inl e \<Rightarrow> (Inl e, s)
                  | Inr bound \<Rightarrow>
                      (case convert_all fit t bound of
                         Inl e \<Rightarrow> (Inl e, s)
                       | Inr given \<Rightarrow>
                           (case find (matches ''id'' i) (rows s t) of
                              None \<Rightarrow> (Inr [], s)
                            | Some r \<Rightarrow>
                                (let r' = AList.updates (flds @ [''updated_at''])
                                            (map snd given @ [Timestamp now]) r
                                 in case row_error s t (remove1 r (rows s t)) r' of
                                      Some e \<Rightarrow> (Inl e, s)
                                    | None \<Rightarrow>
                                        (Inr [r'],
                                         set_rows s t
                                           (update_first (matches ''id'' i) r' (rows s t)))))))))"
| "exec now s (Delete t v) =
     (case input (conversions s) INTEGER v of
        Inl e \<Rightarrow> (Inl e, s)
      | Inr i \<Rightarrow>
          (Inr (map (\<lambda>r. [(''id'', col r ''id'')]) [r \<leftarrow> rows s t. matches ''id'' i r]),
           delete_rows s t i))"
| "exec now s (Truncate ts) = (Inr [], truncate_tables s ts)"
| "exec now s (DeleteAll t) = (Inr [], delete_all s t)"
| "exec now s (Count t) = (Inr [[(''count'', Str (show_nat (length (rows s t))))]], s)"

section \<open>DatabaseConnection.query\<close>

text \<open>
  The connection the service holds: the store behind it, the store's clock (what
  \<^verbatim>\<open>CURRENT_TIMESTAMP\<close> reads) and the statements sent so far. \<^verbatim>\<open>query(text, params)\<close> sends one
  statement and hands the rows or the error on unchanged. The connection is taken to be
  up: a statement fails only when the store rejects it.
\<close>

record conn =
  db :: store
  clock :: nat
  sent :: "stmt list"

definition query :: "conn \<Rightarrow> stmt \<Rightarrow> (error + row list) \<times> conn" where
  "query c st =
     (case exec (clock c) (db c) st of (res, s') \<Rightarrow> (res, c\<lparr>db := s', sent := sent c @ [st]\<rparr>))"

text \<open>
  A connection to the empty store of an engine with the conversions \<open>cv\<close>; \<open>init_conn\<close> is
  the one whose engine rejects every text whose reading is not fixed above.
\<close>

definition connect :: "conversions \<Rightarrow> conn" where
  "connect cv = \<lparr>db = init_store cv, clock = 0, sent = []\<rparr>"

definition init_conn :: conn where
  "init_conn = connect (\<lambda>ty v. None)"

section \<open>DatabaseService\<close>

text \<open>
  Each method sends its statement through \<open>query\<close> inside \<^verbatim>\<open>try { ... } catch (error) {
  console.error(...); throw error; }\<close>, so an error reaches the caller as it was thrown.
  A method returns its result (or the error) and the connection afterwards.
  \<^verbatim>\<open>result.rows[0] || null\<close> is \<open>first_row\<close>; an optional string member that is absent is
  bound as null.
\<close>

definition first_row :: "row list \<Rightarrow> row option" where
  "first_row rs = (case rs of [] \<Rightarrow> None | r # _ \<Rightarrow> Some r)"

definition opt :: "string option \<Rightarrow> val" where
  "opt x = (case x of None \<Rightarrow> Null | Some s \<Rightarrow> Str s)"

text \<open>
  \<^verbatim>\<open>createUser\<close> logs \<^verbatim>\<open>createdUser.id\<close> before it returns, which throws a TypeError if the
  statement returned no row.
\<close>

definition createUser :: "conn \<Rightarrow> User \<Rightarrow> (error + row) \<times> conn" where
  "createUser c user =
     (case query c (Insert Users
             [Str (username user), Str (email user), Str (password user),
              Str (first_name user), Str (last_name user), opt (phone user),
              opt (address user), opt (city user), opt (state user), opt (zip_code user),
              opt (country user)]) of
        (Inl e, c') \<Rightarrow> (Inl e, c')
      | (Inr result, c') \<Rightarrow>
          (case result of
             [] \<Rightarrow> (Inl TypeError, c')
           | createdUser # _ \<Rightarrow> (Inr createdUser, c')))"

definition getUserById :: "conn \<Rightarrow> int \<Rightarrow> (error + row option) \<times> conn" where
  "getUserById c i =
     (case query c (Select Users ''id'' (Number i)) of
        (Inl e, c') \<Rightarrow> (Inl e, c')
      | (Inr result, c') \<Rightarrow> (Inr (first_row result), c'))"

definition getUserByEmail :: "conn \<Rightarrow> string \<Rightarrow> (error + row option) \<times> conn" where
  "getUserByEmail c e =
     (case query c (Select Users ''email'' (Str e)) of
        (Inl e, c') \<Rightarrow> (Inl e, c')
      | (Inr result, c') \<Rightarrow> (Inr (first_row result), c'))"

text \<open>
  \<^verbatim>\<open>updateUser(id, updates)\<close> and \<^verbatim>\<open>updateProduct(id, updates)\<close> start with
  \<^verbatim>\<open>
  const fields = Object.keys(updates).filter(key => key !== 'id' && key !== 'created_at');
  const values = Object.values(updates).filter((_, index) => fields[index]);
  \<close>
  \<open>updates\<close> is the object as its key/value pairs in key order. \<open>values\<close> keeps the value
  at position \<open>index\<close> of the object when \<open>fields[index]\<close> is truthy, that is when \<open>fields\<close>
  has that position and the name there is not the empty string.
\<close>

definition update_fields :: "(string \<times> val) list \<Rightarrow> string list" where
  "update_fields updates = [key \<leftarrow> map fst updates. key \<noteq> ''id'' \<and> key \<noteq> ''created_at'']"

definition update_values :: "(string \<times> val) list \<Rightarrow> val list" where
  "update_values updates =
     map snd
       [(index, v) \<leftarrow> zip [0..<length updates] (map snd updates).
          index < length (update_fields updates) \<and> update_fields updates ! index \<noteq> []]"

definition updateUser :: "conn \<Rightarrow> int \<Rightarrow> (string \<times> val) list \<Rightarrow> (error + row option) \<times> conn" where
  "updateUser c i updates =
     (let flds = update_fields updates;
          vals = update_values updates
      in if length flds = 0 then getUserById c i
         else (case query c (Update Users flds (Number i # vals)) of
                 (Inl e, c') \<Rightarrow> (Inl e, c')
               | (Inr result, c') \<Rightarrow> (Inr (first_row result), c')))"

text \<open>\<^verbatim>\<open>deleteUser\<close> returns \<^verbatim>\<open>result.rows.length > 0\<close>.\<close>

definition deleteUser :: "conn \<Rightarrow> int \<Rightarrow> (error + bool) \<times> conn" where
  "deleteUser c i =
     (case query c (Delete Users (Number i)) of
        (Inl e, c') \<Rightarrow> (Inl e, c')
      | (Inr result, c') \<Rightarrow> (Inr (length result > 0), c'))"

definition createProduct :: "conn \<Rightarrow> Product \<Rightarrow> (error + row option) \<times> conn" where
  "createProduct c product =
     (case query c (Insert Products
             [Str (name product), Str (description product), Decimal (price product) 2,
              Str (category product), Str (brand product), Number (stock_quantity product),
              Str (sku product), opt (image_url product), Bool (is_active product)]) of
        (Inl e, c') \<Rightarrow> (Inl e, c')
      | (Inr result, c') \<Rightarrow> (Inr (first_row result), c'))"

definition getProductById :: "conn \<Rightarrow> int \<Rightarrow> (error + row option) \<times> conn" where
  "getProductById c i =
     (case query c (Select Products ''id'' (Number i)) of
        (Inl e, c') \<Rightarrow> (Inl e, c')
      | (Inr result, c') \<Rightarrow> (Inr (first_row result), c'))"

definition getProductBySku :: "conn \<Rightarrow> string \<Rightarrow> (error + row option) \<times> conn" where
  "getProductBySku c k =
     (case query c (Select Products ''sku'' (Str k)) of
        (Inl e, c') \<Rightarrow> (Inl e, c')
      | (Inr result, c') \<Rightarrow> (Inr (first_row result), c'))"

definition updateProduct :: "conn \<Rightarrow> int \<Rightarrow> (string \<times> val) list \<Rightarrow> (error + row option) \<times> conn" where
  "updateProduct c i updates =
     (let flds = update_fields updates;
          vals = update_values updates
      in if length flds = 0 then getProductById c i
         else (case query c (Update Products flds (Number i # vals)) of
                 (Inl e, c') \<Rightarrow> (Inl e, c')
               | (Inr result, c') \<Rightarrow> (Inr (first_row result), c')))"

definition deleteProduct :: "conn \<Rightarrow> int \<Rightarrow> (error + bool) \<times> conn" where
  "deleteProduct c i =
     (case query c (Delete Products (Number i)) of
        (Inl e, c') \<Rightarrow> (Inl e, c')
      | (Inr result, c') \<Rightarrow> (Inr (length result > 0), c'))"

text \<open>
  \<^verbatim>\<open>createOrder\<close> first looks the user up:
  \<^verbatim>\<open>
  const userExists = await this.getUserById(order.user_id);
  if (!userExists) { throw new Error(`User with ID ${order.user_id} does not exist`); }
  \<close>
  and only then sends the \<^verbatim>\<open>INSERT\<close>.
\<close>

definition createOrder :: "conn \<Rightarrow> Order \<Rightarrow> (error + row option) \<times> conn" where
  "createOrder c order =
     (case getUserById c (user_id order) of
        (Inl e, c1) \<Rightarrow> (Inl e, c1)
      | (Inr None, c1) \<Rightarrow>
          (Inl (Error (''User with ID '' @ show_int (user_id order) @ '' does not exist'')), c1)
      | (Inr (Some userExists), c1) \<Rightarrow>
          (case query c1 (Insert Orders
                  [Number (user_id order), Str (order_number order),
                   Decimal (total_amount order) 2, Str (OrderStatus_value (status order)),
                   Str (shipping_address order), Str (billing_address order),
                   Str (payment_method order)]) of
             (Inl e, c2) \<Rightarrow> (Inl e, c2)
           | (Inr result, c2) \<Rightarrow> (Inr (first_row result), c2)))"

definition getOrderById :: "conn \<Rightarrow> int \<Rightarrow> (error + row option) \<times> conn" where
  "getOrderById c i =
     (case query c (Select Orders ''id'' (Number i)) of
        (Inl e, c') \<Rightarrow> (Inl e, c')
      | (Inr result, c') \<Rightarrow> (Inr (first_row result), c'))"

definition getOrderByNumber :: "conn \<Rightarrow> string \<Rightarrow> (error + row option) \<times> conn" where
  "getOrderByNumber c n =
     (case query c (Select Orders ''order_number'' (Str n)) of
        (Inl e, c') \<Rightarrow> (Inl e, c')
      | (Inr result, c') \<Rightarrow> (Inr (first_row result), c'))"

text \<open>
  \<^verbatim>\<open>updateOrderStatus\<close> is declared to return \<^verbatim>\<open>Promise<Order | null>\<close>, and reads
  \<^verbatim>\<open>
  if (result.rows.length === 0) { throw new Error(`Order with ID ${id} not found`); }
  return result.rows[0];
  \<close>
\<close>

definition updateOrderStatus :: "conn \<Rightarrow> int \<Rightarrow> OrderStatus \<Rightarrow> (error + row option) \<times> conn" where
  "updateOrderStatus c i st =
     (case query c (Update Orders [''status''] [Number i, Str (OrderStatus_value st)]) of
        (Inl e, c') \<Rightarrow> (Inl e, c')
      | (Inr result, c') \<Rightarrow>
          (case result of
             [] \<Rightarrow> (Inl (Error (''Order with ID '' @ show_int i @ '' not found'')), c')
           | r # _ \<Rightarrow> (Inr (Some r), c')))"

definition deleteOrder :: "conn \<Rightarrow> int \<Rightarrow> (error + bool) \<times> conn" where
  "deleteOrder c i =
     (case query c (Delete Orders (Number i)) of
        (Inl e, c') \<Rightarrow> (Inl e, c')
      | (Inr result, c') \<Rightarrow> (Inr (length result > 0), c'))"

definition addOrderItem :: "conn \<Rightarrow> OrderItem \<Rightarrow> (error + row option) \<times> conn" where
  "addOrderItem c orderItem =
     (case query c (Insert OrderItems
             [Number (order_id orderItem), Number (product_id orderItem),
              Number (quantity orderItem), Decimal (unit_price orderItem) 2,
              Decimal (total_price orderItem) 2]) of
        (Inl e, c') \<Rightarrow> (Inl e, c')
      | (Inr result, c') \<Rightarrow> (Inr (first_row result), c'))"

definition getOrderItems :: "conn \<Rightarrow> int \<Rightarrow> (error + row list) \<times> conn" where
  "getOrderItems c orderId = query c (Select OrderItems ''order_id'' (Number orderId))"

definition removeOrderItem :: "conn \<Rightarrow> int \<Rightarrow> (error + bool) \<times> conn" where
  "removeOrderItem c i =
     (case query c (Delete OrderItems (Number i)) of
        (Inl e, c') \<Rightarrow> (Inl e, c')
      | (Inr result, c') \<Rightarrow> (Inr (length result > 0), c'))"

text \<open>
  \<^verbatim>\<open>verifyCleanup\<close> counts the rows of the four tables and compares each count with the
  string \<^verbatim>\<open>'0'\<close>. Whatever is thrown on the way (a rejected statement, a count read on a
  missing row) is caught and makes the result false.
\<close>

definition count_is_zero :: "row list \<Rightarrow> bool" where
  "count_is_zero result = (case result of [] \<Rightarrow> False | r # _ \<Rightarrow> col r ''count'' = Str ''0'')"

definition verifyCleanup :: "conn \<Rightarrow> bool \<times> conn" where
  "verifyCleanup c =
     (case query c (Count Users) of
        (Inl e, c1) \<Rightarrow> (False, c1)
      | (Inr userCount, c1) \<Rightarrow>
     (case query c1 (Count Products) of
        (Inl e, c2) \<Rightarrow> (False, c2)
      | (Inr productCount, c2) \<Rightarrow>
     (case query c2 (Count Orders) of
        (Inl e, c3) \<Rightarrow> (False, c3)
      | (Inr orderCount, c3) \<Rightarrow>
     (case query c3 (Count OrderItems) of
        (Inl e, c4) \<Rightarrow> (False, c4)
      | (Inr orderItemCount, c4) \<Rightarrow>
          (count_is_zero userCount \<and> count_is_zero productCount
           \<and> count_is_zero orderCount \<and> count_is_zero orderItemCount, c4)))))"

text \<open>
  \<^verbatim>\<open>cleanupTestData\<close> makes up to three attempts, each in the \<^verbatim>\<open>catch\<close> block of the one
  before: one \<^verbatim>\<open>TRUNCATE\<close> of the four tables, a \<^verbatim>\<open>TRUNCATE\<close> of each table, a
  \<^verbatim>\<open>DELETE FROM\<close> of each table. An attempt sends its statements in order, then
  (after \<^verbatim>\<open>resetClient()\<close>, which gives the pool's client back and does not touch the
  store) calls \<^verbatim>\<open>verifyCleanup\<close> and throws if the tables are not empty. The error of the
  third attempt is the one that reaches the caller.
\<close>

fun run_all :: "conn \<Rightarrow> stmt list \<Rightarrow> (error + unit) \<times> conn" where
  "run_all c [] = (Inr (), c)"
| "run_all c (st # sts) =
     (case query c st of
        (Inl e, c') \<Rightarrow> (Inl e, c')
      | (Inr result, c') \<Rightarrow> run_all c' sts)"

definition cleanup_attempt :: "conn \<Rightarrow> stmt list \<Rightarrow> string \<Rightarrow> (error + unit) \<times> conn" where
  "cleanup_attempt c sts failure =
     (case run_all c sts of
        (Inl e, c1) \<Rightarrow> (Inl e, c1)
      | (Inr u, c1) \<Rightarrow>
          (case verifyCleanup c1 of
             (isClean, c2) \<Rightarrow> if \<not> isClean then (Inl (Error failure), c2) else (Inr (), c2)))"

definition cleanupTestData :: "conn \<Rightarrow> (error + unit) \<times> conn" where
  "cleanupTestData c =
     (case cleanup_attempt c [Truncate [OrderItems, Orders, Products, Users]]
             ''Cleanup verification failed'' of
        (Inr u, c1) \<Rightarrow> (Inr u, c1)
      | (Inl error, c1) \<Rightarrow>
          (case cleanup_attempt c1
                  [Truncate [OrderItems], Truncate [Orders], Truncate [Products], Truncate [Users]]
                  ''Alternative cleanup verification failed'' of
             (Inr u, c2) \<Rightarrow> (Inr u, c2)
           | (Inl altError, c2) \<Rightarrow>
               cleanup_attempt c2
                 [DeleteAll OrderItems, DeleteAll Orders, DeleteAll Products, DeleteAll Users]
                 ''DELETE cleanup verification failed''))"

text \<open>
  The connections the service can be in: the empty store of any engine, and from there
  any sequence of the methods above, with the store's clock free to move between calls. (The
  listing methods and \<^verbatim>\<open>debugDatabaseState\<close>, which only read, and
  \<^verbatim>\<open>initializeDatabase\<close>, which creates the tables that do not exist yet, are left out.)
\<close>

inductive reachable :: "conn \<Rightarrow> bool" where
  start: "reachable (connect cv)"
| tick: "reachable c \<Longrightarrow> reachable (c\<lparr>clock := t\<rparr>)"
| createUser: "reachable c \<Longrightarrow> reachable (snd (createUser c user))"
| getUserById: "reachable c \<Longrightarrow> reachable (snd (getUserById c i))"
| getUserByEmail: "reachable c \<Longrightarrow> reachable (snd (getUserByEmail c e))"
| updateUser: "reachable c \<Longrightarrow> reachable (snd (updateUser c i updates))"
| deleteUser: "reachable c \<Longrightarrow> reachable (snd (deleteUser c i))"
| createProduct: "reachable c \<Longrightarrow> reachable (snd (createProduct c product))"
| getProductById: "reachable c \<Longrightarrow> reachable (snd (getProductById c i))"
| getProductBySku: "reachable c \<Longrightarrow> reachable (snd (getProductBySku c k))"
| updateProduct: "reachable c \<Longrightarrow> reachable (snd (updateProduct c i updates))"
| deleteProduct: "reachable c \<Longrightarrow> reachable (snd (deleteProduct c i))"
| createOrder: "reachable c \<Longrightarrow> reachable (snd (createOrder c order))"
| getOrderById: "reachable c \<Longrightarrow> reachable (snd (getOrderById c i))"
| getOrderByNumber: "reachable c \<Longrightarrow> reachable (snd (getOrderByNumber c n))"
| updateOrderStatus: "reachable c \<Longrightarrow> reachable (snd (updateOrderStatus c i st))"
| deleteOrder: "reachable c \<Longrightarrow> reachable (snd (deleteOrder c i))"
| addOrderItem: "reachable c \<Longrightarrow> reachable (snd (addOrderItem c orderItem))"
| getOrderItems: "reachable c \<Longrightarrow> reachable (snd (getOrderItems c i))"
| removeOrderItem: "reachable c \<Longrightarrow> reachable (snd (removeOrderItem c i))"
| verifyCleanup: "reachable c \<Longrightarrow> reachable (snd (verifyCleanup c))"
| cleanupTestData: "reachable c \<Longrightarrow> reachable (snd (cleanupTestData c))"

text \<open>The values a column holds, row by row.\<close>

definition column_values :: "conn \<Rightarrow> tbl \<Rightarrow> string \<Rightarrow> val list" where
  "column_values c t k = map (\<lambda>r. col r k) (rows (db c) t)"

text \<open>
  A partial update, as the glossary has it, with the timestamp the \<^verbatim>\<open>UPDATE\<close> text adds:
  \<open>r'\<close> has in every supplied field what the column holds of the supplied value, the
  value of \<open>r\<close> in every other field except \<open>updated_at\<close>, and the time of the update in
  \<open>updated_at\<close> when a field was supplied.
\<close>

definition partial_update_of ::
  "store \<Rightarrow> tbl \<Rightarrow> (string \<times> val) list \<Rightarrow> row \<Rightarrow> nat \<Rightarrow> row \<Rightarrow> bool" where
  "partial_update_of s t updates r now r' \<longleftrightarrow>
     (\<forall>(k, v) \<in> set updates. stored s t k v = Inr (col r' k))
     \<and> (\<forall>k. k \<notin> set (map fst updates) \<and> k \<noteq> ''updated_at'' \<longrightarrow> col r' k = col r k)
     \<and> (updates \<noteq> [] \<longrightarrow> col r' ''updated_at'' = Timestamp now)"

text \<open>
  The values column \<open>k\<close> holds in the rows of table \<open>t\<close> other than the one of id \<open>i\<close>.
\<close>

definition elsewhere :: "conn \<Rightarrow> tbl \<Rightarrow> int \<Rightarrow> string \<Rightarrow> val list" where
  "elsewhere c t i k = map (\<lambda>x. col x k) [x \<leftarrow> rows (db c) t. \<not> matches ''id'' (Number i) x]"

text \<open>
  An updates object the schema has nothing against, for the row of id \<open>i\<close>: its keys are
  distinct columns of the table other than \<open>id\<close>, \<open>created_at\<close> and \<open>updated_at\<close>, each
  value is one its column takes, no \<^verbatim>\<open>NOT NULL\<close> column is given null and no \<^verbatim>\<open>UNIQUE\<close>
  column a value that another row has. An updates object breaks a constraint when one
  of its values, as its column would hold it, is null for a \<^verbatim>\<open>NOT NULL\<close> column or taken by
  another row for a \<^verbatim>\<open>UNIQUE\<close> column.
\<close>

definition acceptable :: "conn \<Rightarrow> tbl \<Rightarrow> int \<Rightarrow> (string \<times> val) list \<Rightarrow> bool" where
  "acceptable c t i updates \<longleftrightarrow>
     distinct (map fst updates)
     \<and> (\<forall>(k, v) \<in> set updates.
          k \<notin> {''id'', ''created_at'', ''updated_at''}
          \<and> (\<exists>column w. column_named t k = Some column \<and> stored (db c) t k v = Inr w
                \<and> (not_null column \<longrightarrow> w \<noteq> Null)
                \<and> (uniq column \<and> w \<noteq> Null \<longrightarrow> w \<notin> set (elsewhere c t i k))))"

definition breaks_constraint :: "conn \<Rightarrow> tbl \<Rightarrow> int \<Rightarrow> (string \<times> val) list \<Rightarrow> bool" where
  "breaks_constraint c t i updates \<longleftrightarrow>
     (\<exists>(k, v) \<in> set updates. \<exists>column w.
        column_named t k = Some column \<and> stored (db c) t k v = Inr w
        \<and> (not_null column \<and> w = Null \<or> uniq column \<and> w \<noteq> Null \<and> w \<in> set (elsewhere c t i k)))"

text \<open>
  A user whose strings are no longer than the \<^verbatim>\<open>VARCHAR\<close> columns of the table \<open>users\<close> are
  wide.
\<close>

definition at_most :: "nat \<Rightarrow> string option \<Rightarrow> bool" where
  "at_most n x = (case x of None \<Rightarrow> True | Some s \<Rightarrow> length s \<le> n)"

definition within_widths :: "User \<Rightarrow> bool" where
  "within_widths user \<longleftrightarrow>
     length (username user) \<le> 50 \<and> length (email user) \<le> 100
     \<and> length (password user) \<le> 255 \<and> length (first_name user) \<le> 50
     \<and> length (last_name user) \<le> 50 \<and> at_most 20 (phone user) \<and> at_most 50 (city user)
     \<and> at_most 50 (state user) \<and> at_most 20 (zip_code user) \<and> at_most 50 (country user)"

text \<open>
  Nothing but the row of id \<open>i\<close> in table \<open>t\<close> differs between two stores.
\<close>

definition others_kept :: "tbl \<Rightarrow> int \<Rightarrow> store \<Rightarrow> store \<Rightarrow> bool" where
  "others_kept t i s s' \<longleftrightarrow>
     seq s' = seq s \<and> conversions s' = conversions s
     \<and> (\<forall>t'. t' \<noteq> t \<longrightarrow> rows s' t' = rows s t')
     \<and> [x \<leftarrow> rows s' t. \<not> matches ''id'' (Number i) x]
         = [x \<leftarrow> rows s t. \<not> matches ''id'' (Number i) x]"

section \<open>DatabaseConnection.transaction\<close>

text \<open>
  \<^verbatim>\<open>
  const client = await this.getClient();
  try {
    await client.query("BEGIN");
    await Promise.all(queries.map((query) => client.query(query.text, query.params)));
    await client.query("COMMIT");
  } catch (error) {
    await client.query("ROLLBACK");
    console.error("Transaction error:", error);
    throw error;
  }
  \<close>
  Here what matters is which statements fail, so the server behind the checked-out client
  is a parameter: \<open>run\<close> takes the server's state and a statement and answers with a result
  or an error. The client keeps the statements it was handed in order (\<open>dispatched\<close>);
  the driver queues them and the server takes them one after the other.
  \<^verbatim>\<open>queries.map\<close> hands every statement to the client before any result is awaited, so
  all of them are dispatched even when one fails, and \<^verbatim>\<open>Promise.all\<close> rejects with the
  error of the first statement that fails. An error thrown by the \<^verbatim>\<open>ROLLBACK\<close> inside
  the \<^verbatim>\<open>catch\<close> block leaves the block in place of the caught one.
\<close>

type_synonym query_config = "string \<times> val list option"

record 'c pg_client =
  server :: 'c
  dispatched :: "query_config list"

type_synonym ('c, 'e, 'r) driver = "'c \<Rightarrow> query_config \<Rightarrow> ('e + 'r) \<times> 'c"

definition client_query ::
  "('c, 'e, 'r) driver \<Rightarrow> 'c pg_client \<Rightarrow> query_config \<Rightarrow> ('e + 'r) \<times> 'c pg_client" where
  "client_query run cl q =
     (case run (server cl) q of
        (res, sv) \<Rightarrow> (res, \<lparr>server = sv, dispatched = dispatched cl @ [q]\<rparr>))"

fun dispatch_all ::
  "('c, 'e, 'r) driver \<Rightarrow> 'c pg_client \<Rightarrow> query_config list \<Rightarrow> ('e + 'r) list \<times> 'c pg_client" where
  "dispatch_all run cl [] = ([], cl)"
| "dispatch_all run cl (q # qs) =
     (case client_query run cl q of
        (r, cl1) \<Rightarrow> (case dispatch_all run cl1 qs of (rs, cl2) \<Rightarrow> (r # rs, cl2)))"

fun first_rejection :: "('e + 'r) list \<Rightarrow> 'e option" where
  "first_rejection [] = None"
| "first_rejection (Inl e # rs) = Some e"
| "first_rejection (Inr x # rs) = first_rejection rs"

definition BEGIN :: query_config where "BEGIN = (''BEGIN'', None)"

definition COMMIT :: query_config where "COMMIT = (''COMMIT'', None)"

definition ROLLBACK :: query_config where "ROLLBACK = (''ROLLBACK'', None)"

text \<open>The \<^verbatim>\<open>catch\<close> block, entered with the caught \<open>error\<close>.\<close>

definition rollback ::
  "('c, 'e, 'r) driver \<Rightarrow> 'c pg_client \<Rightarrow> 'e \<Rightarrow> ('e + unit) \<times> 'c pg_client" where
  "rollback run cl error =
     (case client_query run cl ROLLBACK of
        (Inl error2, cl') \<Rightarrow> (Inl error2, cl')
      | (Inr _, cl') \<Rightarrow> (Inl error, cl'))"

definition transaction ::
  "('c, 'e, 'r) driver \<Rightarrow> 'c pg_client \<Rightarrow> query_config list \<Rightarrow> ('e + unit) \<times> 'c pg_client" where
  "transaction run cl queries =
     (case client_query run cl BEGIN of
        (Inl error, cl1) \<Rightarrow> rollback run cl1 error
      | (Inr _, cl1) \<Rightarrow>
          (case dispatch_all run cl1 queries of
             (results, cl2) \<Rightarrow>
               (case first_rejection results of
                  Some error \<Rightarrow> rollback run cl2 error
                | None \<Rightarrow>
                    (case client_query run cl2 COMMIT of
                       (Inl error, cl3) \<Rightarrow> rollback run cl3 error
                     | (Inr _, cl3) \<Rightarrow> (Inr (), cl3)))))"

text \<open>
  What the caller gets once the transaction has failed with \<open>error\<close> and the \<^verbatim>\<open>ROLLBACK\<close>
  has come back with \<open>rolled\<close>.
\<close>

definition settled :: "'e \<Rightarrow> ('e + 'r) \<Rightarrow> ('e + unit)" where
  "settled error rolled = (case rolled of Inl error2 \<Rightarrow> Inl error2 | Inr _ \<Rightarrow> Inl error)"

section \<open>The RPC layer: GrpcService and the mock server\<close>

text \<open>
  Requests and responses are JavaScript objects: key/value pairs in key order. Numbers
  are the integers the ids and page counts are.
\<close>

datatype jsval =
    Undefined
  | JNull
  | JNumber int
  | JString string
  | JBoolean bool
  | JObject "(string \<times> jsval) list"
  | JArray "jsval list"

type_synonym obj = "(string \<times> jsval) list"

fun truthy :: "jsval \<Rightarrow> bool" where
  "truthy Undefined = False"
| "truthy JNull = False"
| "truthy (JNumber n) = (n \<noteq> 0)"
| "truthy (JString s) = (s \<noteq> [])"
| "truthy (JBoolean b) = b"
| "truthy (JObject _) = True"
| "truthy (JArray _) = True"

text \<open>\<^verbatim>\<open>a || b\<close>, \<^verbatim>\<open>object.key\<close> and \<^verbatim>\<open>{ ...target, ...source }\<close>.\<close>

definition js_or :: "jsval \<Rightarrow> jsval \<Rightarrow> jsval" where
  "js_or a b = (if truthy a then a else b)"

definition member :: "obj \<Rightarrow> string \<Rightarrow> jsval" where
  "member object key = (case map_of object key of Some v \<Rightarrow> v | None \<Rightarrow> Undefined)"

definition spread :: "obj \<Rightarrow> obj \<Rightarrow> obj" where
  "spread target source = fold (\<lambda>(k, v). AList.update k v) source target"

text \<open>
  server/simple-grpc-server.js: a handler receives \<^verbatim>\<open>call.request\<close> and calls \<^verbatim>\<open>cb(error,
  response)\<close> once; it is the function from the request to that pair. \<^verbatim>\<open>{ id: 1,
  ...call.request }\<close> is \<open>spread [(''id'', JNumber 1)] request\<close>.
\<close>

type_synonym handler = "obj \<Rightarrow> jsval \<times> obj"

definition userImpl :: "(string \<times> handler) list" where
  "userImpl =
     [(''GetAllUsers'', \<lambda>request.
         (JNull, [(''users'', JArray []), (''total'', JNumber 0),
                  (''page'', js_or (member request ''page'') (JNumber 1)),
                  (''limit'', js_or (member request ''limit'') (JNumber 100)),
                  (''message'', JString ''OK''), (''success'', JBoolean True)])),
      (''CreateUser'', \<lambda>request.
         (JNull, [(''user'', JObject (spread [(''id'', JNumber 1)] request)),
                  (''message'', JString ''created''), (''success'', JBoolean True)])),
      (''GetUserById'', \<lambda>request.
         (JNull, [(''user'', JObject [(''id'', js_or (member request ''id'') (JNumber 1))]),
                  (''message'', JString ''OK''), (''success'', JBoolean True)])),
      (''GetUserByEmail'', \<lambda>request.
         (JNull, [(''user'', JObject [(''email'', js_or (member request ''email'') (JString ''''))]),
                  (''message'', JString ''OK''), (''success'', JBoolean True)])),
      (''UpdateUser'', \<lambda>request.
         (JNull, [(''user'', JObject (spread [(''id'', js_or (member request ''id'') (JNumber 1))]
                                        request)),
                  (''message'', JString ''updated''), (''success'', JBoolean True)])),
      (''DeleteUser'', \<lambda>request.
         (JNull, [(''success'', JBoolean True), (''message'', JString ''deleted'')]))]"

definition productImpl :: "(string \<times> handler) list" where
  "productImpl =
     [(''GetAllProducts'', \<lambda>request.
         (JNull, [(''products'', JArray []), (''total'', JNumber 0),
                  (''page'', js_or (member request ''page'') (JNumber 1)),
                  (''limit'', js_or (member request ''limit'') (JNumber 100)),
                  (''message'', JString ''OK''), (''success'', JBoolean True)])),
      (''CreateProduct'', \<lambda>request.
         (JNull, [(''product'', JObject (spread [(''id'', JNumber 1)] request)),
                  (''message'', JString ''created''), (''success'', JBoolean True)])),
      (''GetProductById'', \<lambda>request.
         (JNull, [(''product'', JObject [(''id'', js_or (member request ''id'') (JNumber 1))]),
                  (''message'', JString ''OK''), (''success'', JBoolean True)])),
      (''GetProductBySku'', \<lambda>request.
         (JNull, [(''product'', JObject [(''sku'', js_or (member request ''sku'') (JString ''''))]),
                  (''message'', JString ''OK''), (''success'', JBoolean True)])),
      (''UpdateProduct'', \<lambda>request.
         (JNull, [(''product'', JObject (spread [(''id'', js_or (member request ''id'') (JNumber 1))]
                                           request)),
                  (''message'', JString ''updated''), (''success'', JBoolean True)])),
      (''DeleteProduct'', \<lambda>request.
         (JNull, [(''success'', JBoolean True), (''message'', JString ''deleted'')]))]"

definition orderImpl :: "(string \<times> handler) list" where
  "orderImpl =
     [(''GetAllOrders'', \<lambda>request.
         (JNull, [(''orders'', JArray []), (''total'', JNumber 0),
                  (''page'', js_or (member request ''page'') (JNumber 1)),
                  (''limit'', js_or (member request ''limit'') (JNumber 100)),
                  (''message'', JString ''OK''), (''success'', JBoolean True)])),
      (''CreateOrder'', \<lambda>request.
         (JNull, [(''order'', JObject (spread [(''id'', JNumber 1)] request)),
                  (''message'', JString ''created''), (''success'', JBoolean True)])),
      (''GetOrderById'', \<lambda>request.
         (JNull, [(''order'', JObject [(''id'', js_or (member request ''id'') (JNumber 1))]),
                  (''message'', JString ''OK''), (''success'', JBoolean True)])),
      (''GetOrderByNumber'', \<lambda>request.
         (JNull, [(''order'', JObject [(''order_number'',
                                         js_or (member request ''order_number'') (JString ''''))]),
                  (''message'', JString ''OK''), (''success'', JBoolean True)])),
      (''UpdateOrderStatus'', \<lambda>request.
         (JNull, [(''order'', JObject [(''id'', js_or (member request ''id'') (JNumber 1)),
                                       (''status'', member request ''status'')]),
                  (''message'', JString ''updated''), (''success'', JBoolean True)])),
      (''DeleteOrder'', \<lambda>request.
         (JNull, [(''success'', JBoolean True), (''message'', JString ''deleted'')])),
      (''AddOrderItem'', \<lambda>request.
         (JNull, [(''order_item'', JObject (spread [(''id'', JNumber 1)] request)),
                  (''message'', JString ''added''), (''success'', JBoolean True)])),
      (''GetOrderItems'', \<lambda>request.
         (JNull, [(''order_items'', JArray []), (''message'', JString ''OK''),
                  (''success'', JBoolean True)])),
      (''RemoveOrderItem'', \<lambda>request.
         (JNull, [(''success'', JBoolean True), (''message'', JString ''removed'')]))]"

text \<open>
  \<^verbatim>\<open>GrpcClient.executeCall(service, method, request)\<close> against a server whose handlers are
  \<open>service\<close>: the promise rejects with the callback's error when there is one and resolves
  with the response otherwise. The transport between them (serialisation by the proto
  definitions, which are not part of the sources at hand, and the deadline) is not
  modelled; a method the server does not implement is rejected.
\<close>

definition executeCall :: "(string \<times> handler) list \<Rightarrow> string \<Rightarrow> obj \<Rightarrow> jsval + obj" where
  "executeCall service method request =
     (case map_of service method of
        None \<Rightarrow> Inl (JString ''UNIMPLEMENTED'')
      | Some handle \<Rightarrow>
          (case handle request of
             (error, response) \<Rightarrow> if truthy error then Inl error else Inr response))"

text \<open>
  \<^verbatim>\<open>GrpcService.updateUser(id, updates)\<close> builds the whole user message,
  \<^verbatim>\<open>username: updates.username || ''\<close> and so on, and calls \<^verbatim>\<open>UpdateUser\<close>.
\<close>

definition grpc_updateUser_request :: "int \<Rightarrow> obj \<Rightarrow> obj" where
  "grpc_updateUser_request i updates =
     [(''id'', JNumber i),
      (''username'', js_or (member updates ''username'') (JString '''')),
      (''email'', js_or (member updates ''email'') (JString '''')),
      (''password'', js_or (member updates ''password'') (JString '''')),
      (''first_name'', js_or (member updates ''first_name'') (JString '''')),
      (''last_name'', js_or (member updates ''last_name'') (JString '''')),
      (''phone'', js_or (member updates ''phone'') (JString '''')),
      (''address'', js_or (member updates ''address'') (JString '''')),
      (''city'', js_or (member updates ''city'') (JString '''')),
      (''state'', js_or (member updates ''state'') (JString '''')),
      (''zip_code'', js_or (member updates ''zip_code'') (JString '''')),
      (''country'', js_or (member updates ''country'') (JString ''''))]"

definition grpc_updateUser :: "(string \<times> handler) list \<Rightarrow> int \<Rightarrow> obj \<Rightarrow> jsval + obj" where
  "grpc_updateUser userService i updates =
     executeCall userService ''UpdateUser'' (grpc_updateUser_request i updates)"

definition user_message_fields :: "string list" where
  "user_message_fields = [''username'', ''email'', ''password'', ''first_name'', ''last_name'',
     ''phone'', ''address'', ''city'', ''state'', ''zip_code'', ''country'']"

section \<open>Auxiliary notions for the proofs\<close>

text \<open>
  The values of a column that are not null, and what the schema keeps true of a table:
  the sequence's next value is positive and every id is a number below it, \<^verbatim>\<open>NOT NULL\<close>
  columns hold no null, \<^verbatim>\<open>UNIQUE\<close> columns hold no value twice, and every value is one
  that fits its column.
\<close>

definition values_of :: "string \<Rightarrow> row list \<Rightarrow> val list" where
  "values_of c rs = [v \<leftarrow> map (\<lambda>r. col r c) rs. v \<noteq> Null]"

definition table_ok :: "tbl \<Rightarrow> row list \<Rightarrow> int \<Rightarrow> bool" where
  "table_ok t rs n \<longleftrightarrow>
     0 < n
     \<and> (\<forall>r\<in>set rs. \<exists>i<n. col r ''id'' = Number i)
     \<and> (\<forall>k\<in>set (columns t). not_null k \<longrightarrow> (\<forall>r\<in>set rs. col r (cname k) \<noteq> Null))
     \<and> (\<forall>k\<in>set (columns t). uniq k \<longrightarrow> distinct (values_of (cname k) rs))
     \<and> (\<forall>k\<in>set (columns t). \<forall>r\<in>set rs. fit (ctype k) (col r (cname k)) = Inr (col r (cname k)))"

definition consistent :: "store \<Rightarrow> bool" where
  "consistent s \<longleftrightarrow> (\<forall>t. table_ok t (rows s t) (seq s t))"

definition advance :: "store \<Rightarrow> tbl \<Rightarrow> store" where
  "advance s t = s\<lparr>seq := (seq s)(t := seq s t + 1)\<rparr>"

fun stmt_ok :: "stmt \<Rightarrow> bool" where
  "stmt_ok (Update t flds params) = (''id'' \<notin> set flds)"
| "stmt_ok _ = True"

definition ids :: "store \<Rightarrow> tbl \<Rightarrow> val list" where
  "ids s t = map (\<lambda>r. col r ''id'') (rows s t)"

definition user_params :: "User \<Rightarrow> val list" where
  "user_params user =
     [Str (username user), Str (email user), Str (password user), Str (first_name user),
      Str (last_name user), opt (phone user), opt (address user), opt (city user),
      opt (state user), opt (zip_code user), opt (country user)]"

definition user_row :: "int \<Rightarrow> nat \<Rightarrow> User \<Rightarrow> row" where
  "user_row i now user = new_row Users i now (zip (insert_columns Users) (user_params user))"

definition product_params :: "Product \<Rightarrow> val list" where
  "product_params product =
     [Str (name product), Str (description product), Decimal (price product) 2,
      Str (category product), Str (brand product), Number (stock_quantity product),
      Str (sku product), opt (image_url product), Bool (is_active product)]"

definition product_row :: "int \<Rightarrow> nat \<Rightarrow> Product \<Rightarrow> row" where
  "product_row i now product =
     new_row Products i now (zip (insert_columns Products) (product_params product))"

fun dec_val :: "string \<Rightarrow> nat" where
  "dec_val [] = 0"
| "dec_val (c # cs) = (of_char c - 48) * 10 ^ length cs + dec_val cs"

section \<open>Sample inputs\<close>

text \<open>
  A user, the connection after \<open>createUser\<close> of that user in the empty store at time 0
  (read at time 9), the row as stored, and the row after
  \<^verbatim>\<open>updateUser(1, {first_name: 'Updated'})\<close>.
\<close>

definition ann :: User where
  "ann = \<lparr>username = ''ann'', email = ''ann@example.com'', password = ''secret'',
           first_name = ''Ann'', last_name = ''Lee'', phone = None, address = None,
           city = None, state = None, zip_code = None, country = None\<rparr>"

definition ann_stored :: conn where
  "ann_stored = (snd (createUser init_conn ann))\<lparr>clock := 9\<rparr>"

definition ann_row :: row where
  "ann_row =
     [(''id'', Number 1), (''username'', Str ''ann''), (''email'', Str ''ann@example.com''),
      (''password'', Str ''secret''), (''first_name'', Str ''Ann''), (''last_name'', Str ''Lee''),
      (''phone'', Null), (''address'', Null), (''city'', Null), (''state'', Null),
      (''zip_code'', Null), (''country'', Null), (''created_at'', Timestamp 0),
      (''updated_at'', Timestamp 0)]"

definition ann_row_updated :: row where
  "ann_row_updated =
     [(''id'', Number 1), (''username'', Str ''ann''), (''email'', Str ''ann@example.com''),
      (''password'', Str ''secret''), (''first_name'', Str ''Updated''), (''last_name'', Str ''Lee''),
      (''phone'', Null), (''address'', Null), (''city'', Null), (''state'', Null),
      (''zip_code'', Null), (''country'', Null), (''created_at'', Timestamp 0),
      (''updated_at'', Timestamp 9)]"

text \<open>
  A product, the connection after \<open>createProduct\<close> of it in the empty store at time 0 (read
  at time 9), the row as stored, and the row after \<^verbatim>\<open>updateProduct(1, {price: 12.345})\<close>.
\<close>

definition widget :: Product where
  "widget = \<lparr>name = ''Widget'', description = ''A widget'', price = 1999,
              category = ''Tools'', brand = ''Acme'', stock_quantity = 5,
              sku = ''SKU-000001'', image_url = None, is_active = True\<rparr>"

definition widget_stored :: conn where
  "widget_stored = (snd (createProduct init_conn widget))\<lparr>clock := 9\<rparr>"

definition widget_row :: row where
  "widget_row =
     [(''id'', Number 1), (''name'', Str ''Widget''), (''description'', Str ''A widget''),
      (''price'', Decimal 1999 2), (''category'', Str ''Tools''), (''brand'', Str ''Acme''),
      (''stock_quantity'', Number 5), (''sku'', Str ''SKU-000001''), (''image_url'', Null),
      (''is_active'', Bool True), (''created_at'', Timestamp 0), (''updated_at'', Timestamp 0)]"

definition widget_row_repriced :: row where
  "widget_row_repriced =
     [(''id'', Number 1), (''name'', Str ''Widget''), (''description'', Str ''A widget''),
      (''price'', Decimal 1235 2), (''category'', Str ''Tools''), (''brand'', Str ''Acme''),
      (''stock_quantity'', Number 5), (''sku'', Str ''SKU-000001''), (''image_url'', Null),
      (''is_active'', Bool True), (''created_at'', Timestamp 0), (''updated_at'', Timestamp 9)]"

text \<open>A user whose username is \<^verbatim>\<open>'a'.repeat(51)\<close>, one character more than the column takes.\<close>

definition long_name_user :: User where
  "long_name_user = ann\<lparr>username := replicate 51 (CHR ''a'')\<rparr>"

text \<open>A server on which \<^verbatim>\<open>BEGIN\<close> succeeds and every later statement fails with its own text.\<close>

definition failing_after_begin :: "(unit, string, unit) driver" where
  "failing_after_begin sv q = (if fst q = ''BEGIN'' then Inr () else Inl (fst q), sv)"

definition fresh_client :: "unit pg_client" where
  "fresh_client = \<lparr>server = (), dispatched = []\<rparr>"

section \<open>Decimal rendering is injective\<close>

lemma dec_val_append: "dec_val (xs @ ys) = dec_val xs * 10 ^ length ys + dec_val ys"
  by (induction xs) (auto simp: algebra_simps power_add)

lemma of_char_digit: "d < 10 \<Longrightarrow> of_char (digit_char d) = 48 + d"
  by (simp add: digit_char_def)

lemma dec_val_show_nat: "dec_val (show_nat n) = n"
proof (induction n rule: show_nat.induct)
  case (1 n)
  show ?case
  proof (cases "n < 10")
    case True
    then show ?thesis by (subst show_nat.simps) (simp add: of_char_digit)
  next
    case False
    with 1 show ?thesis
      by (subst show_nat.simps) (simp add: dec_val_append of_char_digit)
  qed
qed

lemma show_nat_inj: "show_nat m = show_nat n \<Longrightarrow> m = n"
  by (metis dec_val_show_nat)

lemma show_nat_digits: "c \<in> set (show_nat n) \<Longrightarrow> \<exists>d<10. c = digit_char d"
proof (induction n rule: show_nat.induct)
  case (1 n)
  show ?case
  proof (cases "n < 10")
    case True
    with 1(2) show ?thesis by (subst (asm) show_nat.simps) auto
  next
    case False
    with 1 show ?thesis
      by (subst (asm) (2) show_nat.simps) (auto intro: exI[of _ "n mod 10"])
  qed
qed

lemma show_nat_nonempty: "show_nat n \<noteq> []"
  by (subst show_nat.simps) simp

lemma digit_char_0: "digit_char 0 = CHR ''0''"
proof -
  have "(of_char (digit_char 0) :: nat) = of_char CHR ''0''"
    by (simp add: digit_char_def)
  then show ?thesis by (simp only: of_char_eq_iff)
qed

lemma hd_show_nat: "0 < n \<Longrightarrow> hd (show_nat n) \<noteq> CHR ''0''"
proof (induction n rule: show_nat.induct)
  case (1 n)
  show ?case
  proof (cases "n < 10")
    case True
    with 1(2) show ?thesis
      by (subst show_nat.simps)
        (auto simp: digit_char_def dest!: arg_cong[where f = "of_char :: char \<Rightarrow> nat"])
  next
    case False
    then have "0 < n div 10" by simp
    with 1 False show ?thesis
      by (subst show_nat.simps) (simp add: show_nat_nonempty)
  qed
qed

lemma dropWhile_padStart:
  assumes "s \<noteq> []" "hd s \<noteq> c"
  shows "dropWhile (\<lambda>x. x = c) (padStart k c s) = s"
proof -
  have "dropWhile (\<lambda>x. x = c) (replicate j c @ s) = s" for j
    using assms by (induction j) (auto simp: neq_Nil_conv)
  then show ?thesis by (simp add: padStart_def)
qed

lemma padStart_show_nat_inj:
  assumes "0 < m" "0 < n"
    and "padStart k CHR ''0'' (show_nat m) = padStart k CHR ''0'' (show_nat n)"
  shows "m = n"
proof -
  have "show_nat m = dropWhile (\<lambda>x. x = CHR ''0'') (padStart k CHR ''0'' (show_nat m))"
    using assms(1) by (simp add: dropWhile_padStart show_nat_nonempty hd_show_nat)
  also have "\<dots> = show_nat n"
    using assms(2,3) by (simp add: dropWhile_padStart show_nat_nonempty hd_show_nat)
  finally show ?thesis by (rule show_nat_inj)
qed

text \<open>A separator that is no digit ends the number: the text after it cannot blur it.\<close>

lemma separator_not_digit:
  assumes "(of_char c :: nat) < 48 \<or> 57 < (of_char c :: nat)"
  shows "c \<notin> set (show_nat n)"
proof
  assume "c \<in> set (show_nat n)"
  then obtain d where "d < 10" "c = digit_char d"
    using show_nat_digits by blast
  then have "of_char c = (48 + d :: nat)"
    by (simp add: of_char_digit)
  with \<open>d < 10\<close> assms show False by simp
qed

lemma show_nat_separated_inj:
  assumes sep: "(of_char c :: nat) < 48 \<or> 57 < (of_char c :: nat)"
    and eq: "show_nat t @ c # s = show_nat t' @ c # s'"
  shows "t = t' \<and> s = s'"
proof -
  have tw: "takeWhile (\<lambda>x. x \<noteq> c) (show_nat n @ c # r) = show_nat n" for n r
    using separator_not_digit[OF sep, of n] by (subst takeWhile_append2) auto
  have "show_nat t = takeWhile (\<lambda>x. x \<noteq> c) (show_nat t @ c # s)"
    by (simp add: tw)
  also have "\<dots> = show_nat t'"
    unfolding eq by (simp add: tw)
  finally have "t = t'" by (rule show_nat_inj)
  with eq show ?thesis by simp
qed

lemmas underscore_separated_inj = show_nat_separated_inj[where c = "CHR ''_''", simplified]
lemmas dash_separated_inj = show_nat_separated_inj[where c = "CHR ''-''", simplified]

section \<open>Keys of the generated test data\<close>

lemma distinct_usernames: "distinct (map username (generateUsers count))"
  by (auto simp: generateUsers_def distinct_map comp_def inj_on_def dest: show_nat_inj)

lemma distinct_emails: "distinct (map email (generateUsers count))"
  by (auto simp: generateUsers_def distinct_map comp_def inj_on_def dest: show_nat_inj)

lemma distinct_skus: "distinct (map sku (generateProducts count draw))"
  by (auto simp: generateProducts_def distinct_map comp_def inj_on_def Let_def
      dest!: padStart_show_nat_inj[rotated 2])

lemma distinct_order_numbers:
  "distinct (map order_number (generateOrders userIds count stamp suffix amount))"
proof -
  let ?f = "\<lambda>index. ''ORD-'' @ show_nat (stamp index) @ ''-'' @ show_nat (index + 1)
      @ ''-'' @ suffix index"
  have inj: "inj_on ?f A" for A
    by (rule inj_onI) (auto dest!: dash_separated_inj)
  have "map order_number (generateOrders userIds count stamp suffix amount)
      = map (?f \<circ> fst) (zip [0..<length userIds] userIds)"
    by (simp add: generateOrders_def Let_def case_prod_beta comp_def)
  also have "\<dots> = map ?f (map fst (zip [0..<length userIds] userIds))"
    by (simp only: map_map)
  also have "map fst (zip [0..<length userIds] userIds) = [0..<length userIds]"
    by simp
  finally have eq: "map order_number (generateOrders userIds count stamp suffix amount)
      = map ?f [0..<length userIds]" .
  show ?thesis
    unfolding eq distinct_map by (intro conjI inj distinct_upt)
qed

lemma single_keys_differ:
  assumes "(timestamp, randomSuffix) \<noteq> (timestamp', randomSuffix')"
  shows "username (generateSingleUser timestamp randomSuffix)
           \<noteq> username (generateSingleUser timestamp' randomSuffix')"
    and "email (generateSingleUser timestamp randomSuffix)
           \<noteq> email (generateSingleUser timestamp' randomSuffix')"
    and "sku (generateSingleProduct timestamp randomSuffix)
           \<noteq> sku (generateSingleProduct timestamp' randomSuffix')"
    and "order_number (generateSingleOrder userId timestamp randomSuffix)
           \<noteq> order_number (generateSingleOrder userId' timestamp' randomSuffix')"
  using assms
  by (auto simp: generateSingleUser_def generateSingleProduct_def generateSingleOrder_def
      dest: underscore_separated_inj dash_separated_inj)

section \<open>Evaluating decimal rendering\<close>

lemma digit_char_eqI: "of_char (digit_char d) = (of_char c :: nat) \<Longrightarrow> digit_char d = c"
  by (simp only: of_char_eq_iff)

lemma digit_char_simps:
  "digit_char 0 = CHR ''0''" "digit_char 1 = CHR ''1''" "digit_char 2 = CHR ''2''"
  "digit_char 3 = CHR ''3''" "digit_char 4 = CHR ''4''" "digit_char 5 = CHR ''5''"
  "digit_char 6 = CHR ''6''" "digit_char 7 = CHR ''7''" "digit_char 8 = CHR ''8''"
  "digit_char 9 = CHR ''9''" "digit_char (Suc 0) = CHR ''1''"
  by (rule digit_char_eqI, simp add: digit_char_def)+

lemmas show_eval = show_int_def show_nat.simps digit_char_simps

section \<open>The schema keeps the tables consistent\<close>

declare exec.simps [simp del]

lemma values_of_Nil [simp]: "values_of c [] = []"
  by (simp add: values_of_def)

lemma values_of_Cons:
  "values_of c (r # rs) = (if col r c = Null then values_of c rs else col r c # values_of c rs)"
  by (simp add: values_of_def)

lemma values_of_append: "values_of c (xs @ ys) = values_of c xs @ values_of c ys"
  by (simp add: values_of_def)

lemma set_values_of: "set (values_of c rs) = {v. v \<noteq> Null \<and> v \<in> (\<lambda>r. col r c) ` set rs}"
  by (auto simp: values_of_def)

lemma distinct_values_of_filter:
  "distinct (values_of c rs) \<Longrightarrow> distinct (values_of c (filter P rs))"
  by (induction rs) (auto simp: values_of_Cons set_values_of)

lemma table_ok_filter: "table_ok t rs n \<Longrightarrow> table_ok t (filter P rs) n"
  by (auto simp: table_ok_def distinct_values_of_filter)

lemma consistent_init: "consistent (init_store cv)"
  by (simp add: consistent_def init_store_def table_ok_def)

lemma rescale_same: "rescale d m d = m"
  by (simp add: rescale_def)

lemma fit_idem: "fit ty v = Inr w \<Longrightarrow> fit ty w = Inr w"
  by (induction ty v rule: fit.induct) (auto simp: rescale_same split: if_splits)

lemma distinct_names: "distinct (map cname (columns t))"
  by (cases t) (simp_all add: mk_column_def)

lemma find_distinct_key:
  "distinct (map f xs) \<Longrightarrow> x \<in> set xs \<Longrightarrow> find (\<lambda>y. f y = f x) xs = Some x"
  by (induction xs) (auto simp: image_iff)

lemma column_named_cname: "k \<in> set (columns t) \<Longrightarrow> column_named t (cname k) = Some k"
  unfolding column_named_def using distinct_names by (rule find_distinct_key)

lemma column_named_Some:
  "column_named t c = Some k \<Longrightarrow> k \<in> set (columns t) \<and> cname k = c"
  by (auto simp: column_named_def find_Some_iff in_set_conv_nth)

lemma convert_all_iff:
  "convert_all f t as = Inr as' \<longleftrightarrow>
     list_all2 (\<lambda>(c, v) (c', v'). c' = c
        \<and> (\<exists>k. column_named t c = Some k \<and> f (ctype k) v = Inr v')) as as'"
proof (induction as arbitrary: as')
  case Nil
  show ?case by auto
next
  case (Cons a as)
  obtain c v where a: "a = (c, v)" by (cases a)
  show ?case
    unfolding a
    by (cases as') (auto simp: Cons.IH[symmetric] split: option.splits sum.splits)
qed

lemma convert_all_keys: "convert_all f t as = Inr as' \<Longrightarrow> map fst as' = map fst as"
  unfolding convert_all_iff
  by (induction as as' rule: list_all2_induct) auto

lemma convert_all_fits:
  assumes "convert_all fit t as = Inr as'" "(c, w) \<in> set as'"
  shows "\<exists>k. column_named t c = Some k \<and> fit (ctype k) w = Inr w"
proof -
  from assms(1) have "list_all2 (\<lambda>(c, v) (c', v'). c' = c
        \<and> (\<exists>k. column_named t c = Some k \<and> fit (ctype k) v = Inr v')) as as'"
    by (simp add: convert_all_iff)
  then show ?thesis
    using assms(2)
    by (induction as as' rule: list_all2_induct) (auto dest: fit_idem)
qed

lemma stored_iff:
  "stored s t c v = Inr w \<longleftrightarrow>
     (\<exists>k u. column_named t c = Some k \<and> input (conversions s) (ctype k) v = Inr u
        \<and> fit (ctype k) u = Inr w)"
  by (auto simp: stored_def split: option.splits sum.splits)

lemma convert_all_stored:
  "(\<exists>bound. convert_all (input (conversions s)) t as = Inr bound \<and> convert_all fit t bound = Inr given)
     \<longleftrightarrow> list_all2 (\<lambda>(c, v) (c', w). c' = c \<and> stored s t c v = Inr w) as given"
proof (induction as arbitrary: given)
  case Nil
  show ?case by auto
next
  case (Cons a as)
  obtain c v where a: "a = (c, v)" by (cases a)
  show ?case
  proof
    assume "\<exists>bound. convert_all (input (conversions s)) t (a # as) = Inr bound
        \<and> convert_all fit t bound = Inr given"
    then obtain bound where b: "convert_all (input (conversions s)) t ((c, v) # as) = Inr bound"
      "convert_all fit t bound = Inr given"
      unfolding a by blast
    from b(1) obtain k u bound' where 1: "column_named t c = Some k"
      "input (conversions s) (ctype k) v = Inr u" "convert_all (input (conversions s)) t as = Inr bound'"
      "bound = (c, u) # bound'"
      by (auto split: option.splits sum.splits)
    from b(2) 1(1,4) obtain w given' where 2: "fit (ctype k) u = Inr w"
      "convert_all fit t bound' = Inr given'" "given = (c, w) # given'"
      by (auto split: option.splits sum.splits)
    from 1(3) 2(2) Cons.IH[of given'] have "list_all2 (\<lambda>(c, v) (c', w). c' = c \<and> stored s t c v = Inr w) as given'"
      by blast
    with 1(1,2) 2(1,3) show "list_all2 (\<lambda>(c, v) (c', w). c' = c \<and> stored s t c v = Inr w) (a # as) given"
      unfolding a by (auto simp: stored_iff)
  next
    assume "list_all2 (\<lambda>(c, v) (c', w). c' = c \<and> stored s t c v = Inr w) (a # as) given"
    then obtain w given' where g: "given = (c, w) # given'" "stored s t c v = Inr w"
      "list_all2 (\<lambda>(c, v) (c', w). c' = c \<and> stored s t c v = Inr w) as given'"
      unfolding a by (cases given) auto
    from g(2) obtain k u where k: "column_named t c = Some k"
      "input (conversions s) (ctype k) v = Inr u" "fit (ctype k) u = Inr w"
      by (auto simp: stored_iff)
    from g(3) Cons.IH[of given'] obtain bound' where
      b: "convert_all (input (conversions s)) t as = Inr bound'" "convert_all fit t bound' = Inr given'"
      by blast
    show "\<exists>bound. convert_all (input (conversions s)) t (a # as) = Inr bound
        \<and> convert_all fit t bound = Inr given"
      unfolding a g(1) using k b by (intro exI[of _ "(c, u) # bound'"]) simp
  qed
qed

lemma not_null_violation_None:
  "not_null_violation t r = None \<longleftrightarrow> (\<forall>k\<in>set (columns t). not_null k \<longrightarrow> col r (cname k) \<noteq> Null)"
  by (auto simp: not_null_violation_def find_None_iff)

lemma unique_violation_None:
  "unique_violation t others r = None \<longleftrightarrow>
     (\<forall>k\<in>set (columns t). uniq k \<longrightarrow> col r (cname k) \<notin> set (values_of (cname k) others))"
  by (auto simp: unique_violation_def find_None_iff set_values_of)

lemma row_error_None:
  "row_error s t others r = None \<longleftrightarrow>
     not_null_violation t r = None \<and> unique_violation t others r = None
     \<and> foreign_key_violation s t r = None"
  by (auto simp: row_error_def split: option.splits)

lemma table_ok_insert:
  assumes "table_ok t rs n" "not_null_violation t r = None" "unique_violation t rs r = None"
    and "col r ''id'' = Number n"
    and "\<forall>k\<in>set (columns t). fit (ctype k) (col r (cname k)) = Inr (col r (cname k))"
  shows "table_ok t (rs @ [r]) (n + 1)"
  using assms
  unfolding table_ok_def not_null_violation_None unique_violation_None
  by (auto simp: values_of_append values_of_Cons)

lemma find_split:
  "find P rs = Some r \<Longrightarrow> \<exists>xs ys. rs = xs @ r # ys \<and> (\<forall>x\<in>set xs. \<not> P x) \<and> P r"
proof (induction rs)
  case Nil
  then show ?case by simp
next
  case (Cons a rs)
  show ?case
  proof (cases "P a")
    case True
    with Cons.prems have "a = r" by simp
    with True show ?thesis by (intro exI[of _ "[]"] exI[of _ rs]) auto
  next
    case False
    with Cons obtain xs ys where "rs = xs @ r # ys" "\<forall>x\<in>set xs. \<not> P x" "P r"
      by auto
    with False show ?thesis by (intro exI[of _ "a # xs"] exI[of _ ys]) auto
  qed
qed

lemma update_first_split:
  "(\<forall>x\<in>set xs. \<not> P x) \<Longrightarrow> P r \<Longrightarrow> update_first P y (xs @ r # ys) = xs @ y # ys"
  by (induction xs) auto

lemma remove1_split:
  "(\<forall>x\<in>set xs. \<not> P x) \<Longrightarrow> P r \<Longrightarrow> remove1 r (xs @ r # ys) = xs @ ys"
  by (induction xs) auto

lemma table_ok_replace:
  assumes ok: "table_ok t (xs @ r # ys) n"
    and nn: "not_null_violation t r' = None"
    and un: "unique_violation t (xs @ ys) r' = None"
    and id: "col r' ''id'' = col r ''id''"
    and ft: "\<forall>k\<in>set (columns t). fit (ctype k) (col r' (cname k)) = Inr (col r' (cname k))"
  shows "table_ok t (xs @ r' # ys) n"
proof -
  have sub: "table_ok t (xs @ ys) n"
    using ok by (auto simp: table_ok_def values_of_append values_of_Cons split: if_splits)
  show ?thesis
    using ok sub nn un id ft
    unfolding table_ok_def not_null_violation_None unique_violation_None
    by (auto simp: values_of_append values_of_Cons split: if_splits)
qed

lemma rows_set_rows [simp]: "rows (set_rows s t rs) t' = (if t' = t then rs else rows s t')"
  by (simp add: set_rows_def)

lemma seq_set_rows [simp]: "seq (set_rows s t rs) = seq s"
  by (simp add: set_rows_def)

lemma consistent_filter:
  "consistent s \<Longrightarrow> consistent (set_rows s t (filter P (rows s t)))"
  by (simp add: consistent_def table_ok_filter)

lemma consistent_delete_referencing:
  "consistent s \<Longrightarrow> consistent (delete_referencing s child c gone)"
  unfolding delete_referencing_def by (rule consistent_filter)

lemma rows_delete_referencing:
  "rows (delete_referencing s child c gone) t
     = (if t = child then [r \<leftarrow> rows s child. col r c \<notin> set (map (\<lambda>x. col x ''id'') gone)]
        else rows s t)"
  by (simp add: delete_referencing_def)

lemma consistent_delete_rows: "consistent s \<Longrightarrow> consistent (delete_rows s t v)"
  by (cases t) (simp_all add: Let_def consistent_delete_referencing consistent_filter)

lemma consistent_emptied: "consistent s \<Longrightarrow> consistent (set_rows s t [])"
  by (simp add: consistent_def table_ok_def)

lemma consistent_delete_all: "consistent s \<Longrightarrow> consistent (delete_all s t)"
  by (cases t) (simp_all add: Let_def consistent_delete_referencing consistent_emptied)

lemma consistent_truncate: "consistent s \<Longrightarrow> consistent (truncate_tables s ts)"
  by (simp add: consistent_def truncate_tables_def Let_def table_ok_def)

lemma id_not_inserted: "''id'' \<notin> set (insert_columns t)"
  by (cases t) simp_all

lemma id_is_serial: "map_of (map (\<lambda>k. (cname k, k)) (columns t)) ''id''
    = Some (mk_column ''id'' INTEGER True True Serial None)"
  by (cases t) (simp_all add: mk_column_def)

lemma col_new_row:
  "col (new_row t i now given) c
     = (case map_of (map (\<lambda>k. (cname k, k)) (columns t)) c of
          None \<Rightarrow> Null
        | Some k \<Rightarrow> (case map_of given c of Some v \<Rightarrow> v | None \<Rightarrow> default_value k i now))"
proof -
  let ?f = "\<lambda>k. case map_of given (cname k) of Some v \<Rightarrow> v | None \<Rightarrow> default_value k i now"
  have mo: "map_of (map (\<lambda>k. (cname k, f k)) ks) c
      = map_option f (map_of (map (\<lambda>k. (cname k, k)) ks) c)" for f :: "column \<Rightarrow> val" and ks
    by (induction ks) auto
  have nm: "cname k = c" if "map_of (map (\<lambda>k. (cname k, k)) (columns t)) c = Some k" for k
    using map_of_SomeD[OF that] by auto
  show ?thesis
  proof (cases "map_of (map (\<lambda>k. (cname k, k)) (columns t)) c")
    case None
    then show ?thesis by (simp add: col_def new_row_def mo)
  next
    case (Some k)
    with nm[OF Some] show ?thesis by (simp add: col_def new_row_def mo)
  qed
qed

lemma new_row_id:
  "''id'' \<notin> fst ` set given \<Longrightarrow> col (new_row t i now given) ''id'' = Number i"
  by (simp add: col_new_row id_is_serial default_value_def mk_column_def
      map_of_eq_None_iff[THEN iffD2] split: option.splits)

lemma map_of_columns:
  assumes "k \<in> set (columns t)"
  shows "map_of (map (\<lambda>k. (cname k, k)) (columns t)) (cname k) = Some k"
proof (rule map_of_is_SomeI)
  show "distinct (map fst (map (\<lambda>k. (cname k, k)) (columns t)))"
    using distinct_names[of t] by (simp add: comp_def)
  show "(cname k, k) \<in> set (map (\<lambda>k. (cname k, k)) (columns t))"
    using assms by auto
qed

lemma default_fits:
  "k \<in> set (columns t) \<Longrightarrow> fit (ctype k) (default_value k i now) = Inr (default_value k i now)"
  by (cases t) (auto simp: mk_column_def default_value_def)

lemma given_fits:
  assumes "convert_all fit t bound = Inr given" "k \<in> set (columns t)" "(cname k, v) \<in> set given"
  shows "fit (ctype k) v = Inr v"
  using convert_all_fits[OF assms(1,3)] column_named_cname[OF assms(2)] by auto

lemma new_row_fits:
  assumes "convert_all fit t bound = Inr given" "k \<in> set (columns t)"
  shows "fit (ctype k) (col (new_row t i now given) (cname k))
     = Inr (col (new_row t i now given) (cname k))"
proof (cases "map_of given (cname k)")
  case None
  with assms(2) show ?thesis
    by (simp add: col_new_row map_of_columns default_fits)
next
  case (Some v)
  then have "(cname k, v) \<in> set given"
    by (rule map_of_SomeD)
  with assms have "fit (ctype k) v = Inr v"
    by (rule given_fits)
  with Some assms(2) show ?thesis
    by (simp add: col_new_row map_of_columns)
qed

lemma table_ok_mono: "table_ok t rs n \<Longrightarrow> n \<le> m \<Longrightarrow> table_ok t rs m"
  unfolding table_ok_def by (meson order_less_le_trans)

lemma exec_insert_cases:
  assumes "exec now s (Insert t params) = (res, s')"
  obtains (rejected) e where "res = Inl e" "s' = s \<or> s' = advance s t"
  | (inserted) r bound given where "res = Inr [r]" "length params = length (insert_columns t)"
      "convert_all (input (conversions s)) t (zip (insert_columns t) params) = Inr bound"
      "convert_all fit t bound = Inr given"
      "seq s t \<le> 2147483647"
      "r = new_row t (seq s t) now given"
      "row_error s t (rows s t) r = None"
      "s' = set_rows (advance s t) t (rows s t @ [r])"
proof (cases "length params = length (insert_columns t)")
  case False
  with assms show ?thesis by (intro rejected[of MissingParameter]) (simp_all add: exec.simps)
next
  case len: True
  show ?thesis
  proof (cases "convert_all (input (conversions s)) t (zip (insert_columns t) params)")
    case (Inl e)
    with assms len show ?thesis by (intro rejected[of e]) (simp_all add: exec.simps)
  next
    case bound: (Inr bound)
    show ?thesis
    proof (cases "convert_all fit t bound")
      case (Inl e)
      with assms len bound show ?thesis by (intro rejected[of e]) (simp_all add: exec.simps)
    next
      case given: (Inr given)
      show ?thesis
      proof (cases "seq s t > 2147483647")
        case True
        with assms len bound given show ?thesis
          by (intro rejected[of SequenceGeneratorLimitExceeded]) (simp_all add: exec.simps)
      next
        case False
        show ?thesis
        proof (cases "row_error s t (rows s t) (new_row t (seq s t) now given)")
          case (Some e)
          with assms len bound given False show ?thesis
            by (intro rejected[of e]) (simp_all add: exec.simps Let_def advance_def)
        next
          case None
          with assms len bound given False show ?thesis
            by (intro inserted[of "new_row t (seq s t) now given" bound given])
              (simp_all add: exec.simps Let_def advance_def)
        qed
      qed
    qed
  qed
qed

lemma consistent_advance: "consistent s \<Longrightarrow> consistent (advance s t)"
  by (auto simp: consistent_def advance_def intro: table_ok_mono)

lemma consistent_insert:
  assumes "consistent s"
  shows "consistent (snd (exec now s (Insert t params)))"
proof -
  obtain res s' where ex: "exec now s (Insert t params) = (res, s')"
    by (cases "exec now s (Insert t params)")
  from ex have "consistent s'"
  proof (cases rule: exec_insert_cases)
    case (rejected e)
    with assms show ?thesis by (auto simp: consistent_advance)
  next
    case (inserted r bound given)
    have "map fst given = insert_columns t"
      using convert_all_keys[OF inserted(4)] convert_all_keys[OF inserted(3)] inserted(2)
      by simp
    then have "fst ` set given = set (insert_columns t)"
      by (metis set_map)
    then have id: "col r ''id'' = Number (seq s t)"
      unfolding inserted(6) using id_not_inserted[of t] by (intro new_row_id) simp
    have ft: "\<forall>k\<in>set (columns t). fit (ctype k) (col r (cname k)) = Inr (col r (cname k))"
      unfolding inserted(6) using inserted(4) by (auto intro: new_row_fits)
    have "table_ok t (rows s t @ [r]) (seq s t + 1)"
      using assms inserted(7) id ft
      by (intro table_ok_insert) (simp_all add: consistent_def row_error_None)
    moreover have "table_ok t' (rows s t') (seq s t')" for t'
      using assms by (simp add: consistent_def)
    ultimately show ?thesis
      unfolding inserted(8) consistent_def by (simp add: advance_def)
  qed
  with ex show ?thesis by simp
qed

lemma col_updates_other:
  "c \<notin> set ks \<Longrightarrow> col (AList.updates ks vs r) c = col r c"
  by (simp add: col_def updates_conv')

lemma map_upds_distinct:
  assumes "distinct ks" "length ks = length vs" "(k, v) \<in> set (zip ks vs)"
  shows "(m(ks [\<mapsto>] vs)) k = Some v"
proof -
  have "distinct (map fst (rev (zip ks vs)))"
    using assms(1,2) by (simp add: rev_map[symmetric])
  moreover have "(k, v) \<in> set (rev (zip ks vs))"
    using assms(3) by simp
  ultimately have "map_of (rev (zip ks vs)) k = Some v"
    by (rule map_of_is_SomeI)
  then show ?thesis
    by (simp add: map_upds_def)
qed

lemma col_updates_given:
  assumes "distinct ks" "length ks = length vs" "(k, v) \<in> set (zip ks vs)"
  shows "col (AList.updates ks vs r) k = v"
  using map_upds_distinct[OF assms] by (simp add: col_def updates_conv')

lemma exec_update_cases:
  assumes "exec now s (Update t flds params) = (res, s')"
  obtains (rejected) e where "res = Inl e" "s' = s"
  | (absent) i where "res = Inr []" "s' = s" "input (conversions s) INTEGER (hd params) = Inr i"
      "find (matches ''id'' i) (rows s t) = None"
  | (updated) i r r' bound given where "res = Inr [r']" "length params = length flds + 1"
      "undefined_column t (flds @ [''updated_at'']) = None"
      "distinct (flds @ [''updated_at''])"
      "input (conversions s) INTEGER (hd params) = Inr i"
      "convert_all (input (conversions s)) t (zip flds (tl params)) = Inr bound"
      "convert_all fit t bound = Inr given"
      "find (matches ''id'' i) (rows s t) = Some r"
      "r' = AList.updates (flds @ [''updated_at'']) (map snd given @ [Timestamp now]) r"
      "row_error s t (remove1 r (rows s t)) r' = None"
      "s' = set_rows s t (update_first (matches ''id'' i) r' (rows s t))"
proof (cases "undefined_column t (flds @ [''updated_at''])")
  case (Some e)
  with assms show ?thesis by (intro rejected[of e]) (simp_all add: exec.simps)
next
  case cols: None
  show ?thesis
  proof (cases "distinct (flds @ [''updated_at'']) \<and> length params = length flds + 1")
    case False
    with assms cols obtain e where "res = Inl e" "s' = s"
      by (auto simp: exec.simps split: if_splits)
    then show ?thesis by (rule rejected)
  next
    case ok: True
    show ?thesis
    proof (cases "input (conversions s) INTEGER (hd params)")
      case (Inl e)
      with assms cols ok show ?thesis by (intro rejected[of e]) (simp_all add: exec.simps)
    next
      case i: (Inr i)
      show ?thesis
      proof (cases "convert_all (input (conversions s)) t (zip flds (tl params))")
        case (Inl e)
        with assms cols ok i show ?thesis by (intro rejected[of e]) (simp_all add: exec.simps)
      next
        case bound: (Inr bound)
        show ?thesis
        proof (cases "convert_all fit t bound")
          case (Inl e)
          with assms cols ok i bound show ?thesis
            by (intro rejected[of e]) (simp_all add: exec.simps)
        next
          case given: (Inr given)
          show ?thesis
          proof (cases "find (matches ''id'' i) (rows s t)")
            case None
            with assms cols ok i bound given show ?thesis
              by (intro absent[of i]) (simp_all add: exec.simps)
          next
            case r: (Some r)
            let ?r' = "AList.updates (flds @ [''updated_at'']) (map snd given @ [Timestamp now]) r"
            show ?thesis
            proof (cases "row_error s t (remove1 r (rows s t)) ?r'")
              case (Some e)
              with assms cols ok i bound given r show ?thesis
                by (intro rejected[of e]) (simp_all add: exec.simps Let_def)
            next
              case None
              with assms cols ok i bound given r show ?thesis
                by (intro updated[of ?r' i bound given r]) (simp_all add: exec.simps Let_def)
            qed
          qed
        qed
      qed
    qed
  qed
qed

lemma given_assignments:
  assumes "convert_all f t (zip flds vs) = Inr bound" "convert_all g t bound = Inr given"
    and "length vs = length flds"
  shows "map fst given = flds" and "zip flds (map snd given) = given"
proof -
  show k: "map fst given = flds"
    using convert_all_keys[OF assms(2)] convert_all_keys[OF assms(1)] assms(3) by simp
  show "zip flds (map snd given) = given"
    unfolding k[symmetric] by (rule zip_map_fst_snd)
qed

lemma consistent_update:
  assumes "consistent s" "''id'' \<notin> set flds"
  shows "consistent (snd (exec now s (Update t flds params)))"
proof -
  obtain res s' where ex: "exec now s (Update t flds params) = (res, s')"
    by (cases "exec now s (Update t flds params)")
  from ex have "consistent s'"
  proof (cases rule: exec_update_cases)
    case (updated i r r' bound given)
    let ?P = "matches ''id'' i"
    let ?ks = "flds @ [''updated_at'']"
    let ?vs = "map snd given @ [Timestamp now]"
    from find_split[OF updated(8)] obtain xs ys where
      sp: "rows s t = xs @ r # ys" "\<forall>x\<in>set xs. \<not> ?P x" "?P r"
      by blast
    from updated(2) have len: "length (tl params) = length flds"
      by simp
    note ga = given_assignments[OF updated(6,7) len]
    have lg: "length given = length flds"
      using arg_cong[OF ga(1), of length] by simp
    have lens: "length ?ks = length ?vs"
      by (simp add: lg)
    have zip: "zip ?ks ?vs = given @ [(''updated_at'', Timestamp now)]"
      by (simp add: lg ga(2))
    have id: "col r' ''id'' = col r ''id''"
      unfolding updated(9) using assms(2) by (intro col_updates_other) simp
    have ok: "table_ok t (xs @ r # ys) (seq s t)"
      using assms(1)[unfolded consistent_def, rule_format, of t] sp(1) by simp
    have ft: "fit (ctype k) (col r' (cname k)) = Inr (col r' (cname k))"
      if k: "k \<in> set (columns t)" for k
    proof (cases "cname k \<in> set ?ks")
      case False
      then have "col r' (cname k) = col r (cname k)"
        unfolding updated(9) by (rule col_updates_other)
      with ok k show ?thesis
        by (simp add: table_ok_def)
    next
      case True
      from in_set_impl_in_set_zip1[OF lens True]
      obtain v where v: "(cname k, v) \<in> set (zip ?ks ?vs)" .
      then have c: "col r' (cname k) = v"
        unfolding updated(9) using updated(4) lens by (intro col_updates_given)
      from v have "(cname k, v) \<in> set given \<or> v = Timestamp now"
        unfolding zip by auto
      then have "fit (ctype k) v = Inr v"
        using given_fits[OF updated(7) k] by (cases "ctype k") auto
      with c show ?thesis by simp
    qed
    have "remove1 r (rows s t) = xs @ ys"
      unfolding sp(1) using sp(2,3) by (rule remove1_split)
    with updated(10) have re: "row_error s t (xs @ ys) r' = None"
      by simp
    have nn: "not_null_violation t r' = None"
      using re by (simp add: row_error_None)
    have un: "unique_violation t (xs @ ys) r' = None"
      using re by (simp add: row_error_None)
    have "table_ok t (xs @ r' # ys) (seq s t)"
      using ft by (intro table_ok_replace[OF ok nn un id]) simp
    moreover have "update_first ?P r' (rows s t) = xs @ r' # ys"
      unfolding sp(1) using sp(2,3) by (rule update_first_split)
    moreover have "table_ok t' (rows s t') (seq s t')" for t'
      using assms(1) by (simp add: consistent_def)
    ultimately show ?thesis
      unfolding updated(11) consistent_def by simp
  qed (use assms in auto)
  with ex show ?thesis by simp
qed

lemma exec_consistent:
  assumes "consistent s" "stmt_ok st"
  shows "consistent (snd (exec now s st))"
proof (cases st)
  case (Insert t ps)
  with assms show ?thesis using consistent_insert[of s now t ps] by simp
next
  case (Update t flds ps)
  with assms show ?thesis using consistent_update[of s flds now t ps] by simp
next
  case (Select t c v)
  with assms show ?thesis by (simp add: exec.simps split: option.splits sum.splits)
next
  case (Delete t v)
  with assms show ?thesis
    by (simp add: exec.simps consistent_delete_rows split: option.splits sum.splits)
next
  case (Truncate ts)
  with assms show ?thesis by (simp add: exec.simps consistent_truncate)
next
  case (DeleteAll t)
  with assms show ?thesis by (simp add: exec.simps consistent_delete_all)
next
  case (Count t)
  with assms show ?thesis by (simp add: exec.simps)
qed

lemma query_consistent:
  "consistent (db c) \<Longrightarrow> stmt_ok st \<Longrightarrow> consistent (db (snd (query c st)))"
  using exec_consistent[of "db c" st "clock c"]
  by (cases "exec (clock c) (db c) st") (simp add: query_def)

lemma id_not_updated: "''id'' \<notin> set (update_fields updates)"
  by (simp add: update_fields_def)

lemma query_select_db: "db (snd (query c (Select t k v))) = db c"
  by (simp add: query_def exec.simps split: option.splits sum.splits)

lemma one_query_conn:
  "snd (case query c st of (Inl e, c') \<Rightarrow> (Inl e, c') | (Inr result, c') \<Rightarrow> (f result, c'))
     = snd (query c st)"
  by (simp split: prod.splits sum.splits)

lemma one_query_conn':
  "snd (case query c st of (Inl e, c') \<Rightarrow> (Inl e, c')
        | (Inr result, c') \<Rightarrow> (case result of [] \<Rightarrow> (g, c') | r # x \<Rightarrow> (f r, c')))
     = snd (query c st)"
  by (simp split: prod.splits sum.splits list.splits)

lemma getUserById_db: "db (snd (getUserById c i)) = db c"
  by (simp add: getUserById_def one_query_conn query_select_db)

lemma getProductById_db: "db (snd (getProductById c i)) = db c"
  by (simp add: getProductById_def one_query_conn query_select_db)

lemma query_count_db: "db (snd (query c (Count t))) = db c"
  by (simp add: query_def exec.simps)

lemma verifyCleanup_db: "db (snd (verifyCleanup c)) = db c"
proof -
  have step: "db c' = db c" if "query c (Count t) = (r, c')" for c c' t r
    using query_count_db[of c t] that by simp
  show ?thesis
    by (auto simp: verifyCleanup_def split: prod.splits sum.splits dest!: step)
qed

lemma run_all_consistent:
  "consistent (db c) \<Longrightarrow> list_all stmt_ok sts \<Longrightarrow> consistent (db (snd (run_all c sts)))"
proof (induction sts arbitrary: c)
  case Nil
  then show ?case by simp
next
  case (Cons st sts)
  obtain r c' where q: "query c st = (r, c')"
    by (cases "query c st")
  with Cons.prems query_consistent[of c st] have "consistent (db c')"
    by simp
  with Cons.IH[of c'] Cons.prems q show ?case
    by (cases r) simp_all
qed

lemma cleanup_attempt_consistent:
  assumes "consistent (db c)" "list_all stmt_ok sts"
  shows "consistent (db (snd (cleanup_attempt c sts failure)))"
proof -
  obtain r c1 where a: "run_all c sts = (r, c1)"
    by (cases "run_all c sts")
  with run_all_consistent[OF assms] have c1: "consistent (db c1)"
    by simp
  obtain isClean c2 where v: "verifyCleanup c1 = (isClean, c2)"
    by (cases "verifyCleanup c1")
  with verifyCleanup_db[of c1] c1 have "consistent (db c2)"
    by simp
  with a c1 v show ?thesis
    by (cases r) (simp_all add: cleanup_attempt_def)
qed

lemma cleanupTestData_consistent:
  assumes "consistent (db c)"
  shows "consistent (db (snd (cleanupTestData c)))"
proof -
  let ?a1 = "cleanup_attempt c [Truncate [OrderItems, Orders, Products, Users]]
      ''Cleanup verification failed''"
  obtain r1 c1 where a1: "?a1 = (r1, c1)"
    by (cases ?a1)
  have c1: "consistent (db c1)"
    using cleanup_attempt_consistent[OF assms, of "[Truncate [OrderItems, Orders, Products, Users]]"
        "''Cleanup verification failed''"] a1
    by simp
  let ?a2 = "cleanup_attempt c1
      [Truncate [OrderItems], Truncate [Orders], Truncate [Products], Truncate [Users]]
      ''Alternative cleanup verification failed''"
  obtain r2 c2 where a2: "?a2 = (r2, c2)"
    by (cases ?a2)
  have c2: "consistent (db c2)"
    using cleanup_attempt_consistent[OF c1,
        of "[Truncate [OrderItems], Truncate [Orders], Truncate [Products], Truncate [Users]]"
        "''Alternative cleanup verification failed''"] a2
    by simp
  have c3: "consistent (db (snd (cleanup_attempt c2
      [DeleteAll OrderItems, DeleteAll Orders, DeleteAll Products, DeleteAll Users]
      ''DELETE cleanup verification failed'')))"
    by (rule cleanup_attempt_consistent[OF c2]) simp
  from a1 a2 c1 c2 c3 show ?thesis
    by (cases r1; cases r2) (simp_all add: cleanupTestData_def)
qed

text \<open>
  The first attempt of \<^verbatim>\<open>cleanupTestData\<close> always does: whatever the store held, it is the
  empty store afterwards, with every sequence back at 1.
\<close>

lemma truncate_everything:
  "truncate_tables s [OrderItems, Orders, Products, Users] = s\<lparr>rows := (\<lambda>t. []), seq := (\<lambda>t. 1)\<rparr>"
proof -
  have everything: "t \<in> set (concat (map cascade [OrderItems, Orders, Products, Users]))" for t
    by (cases t) simp_all
  show ?thesis
    unfolding truncate_tables_def Let_def by (simp only: everything if_True)
qed

lemma cleanupTestData_empties:
  "fst (cleanupTestData c) = Inr ()
   \<and> db (snd (cleanupTestData c)) = init_store (conversions (db c))"
proof -
  have zero: "show_nat 0 = ''0''"
    by (simp add: show_nat.simps digit_char_simps)
  obtain r c1 where a: "cleanup_attempt c [Truncate [OrderItems, Orders, Products, Users]]
      ''Cleanup verification failed'' = (r, c1)"
    by (cases "cleanup_attempt c [Truncate [OrderItems, Orders, Products, Users]]
      ''Cleanup verification failed''")
  then have "r = Inr () \<and> db c1 = init_store (conversions (db c))"
    by (auto simp: cleanup_attempt_def verifyCleanup_def query_def exec.simps truncate_everything
        count_is_zero_def col_def zero init_store_def)
  with a show ?thesis
    by (simp add: cleanupTestData_def)
qed

lemma reachable_consistent: "reachable c \<Longrightarrow> consistent (db c)"
proof (induction rule: reachable.induct)
  case start
  show ?case by (simp add: connect_def consistent_init)
next
  case (tick c t)
  then show ?case by simp
next
  case (createUser c user)
  then show ?case by (simp add: createUser_def one_query_conn' query_consistent)
next
  case (getUserById c i)
  then show ?case by (simp add: getUserById_db)
next
  case (getUserByEmail c e)
  then show ?case by (simp add: getUserByEmail_def one_query_conn query_select_db)
next
  case (updateUser c i updates)
  then show ?case
    by (simp add: updateUser_def Let_def one_query_conn query_consistent getUserById_db
        id_not_updated del: length_0_conv)
next
  case (deleteUser c i)
  then show ?case by (simp add: deleteUser_def one_query_conn query_consistent)
next
  case (createProduct c product)
  then show ?case by (simp add: createProduct_def one_query_conn query_consistent)
next
  case (getProductById c i)
  then show ?case by (simp add: getProductById_db)
next
  case (getProductBySku c k)
  then show ?case by (simp add: getProductBySku_def one_query_conn query_select_db)
next
  case (updateProduct c i updates)
  then show ?case
    by (simp add: updateProduct_def Let_def one_query_conn query_consistent getProductById_db
        id_not_updated del: length_0_conv)
next
  case (deleteProduct c i)
  then show ?case by (simp add: deleteProduct_def one_query_conn query_consistent)
next
  case (createOrder c order)
  obtain r1 c1 where g: "getUserById c (user_id order) = (r1, c1)"
    by (cases "getUserById c (user_id order)")
  from g have "db c1 = db c"
    using getUserById_db[of c "user_id order"] by simp
  with createOrder.IH have c1: "consistent (db c1)"
    by simp
  show ?case
  proof (cases r1)
    case (Inl e)
    with g c1 show ?thesis by (simp add: createOrder_def)
  next
    case (Inr found)
    show ?thesis
    proof (cases found)
      case None
      with g c1 Inr show ?thesis by (simp add: createOrder_def)
    next
      case (Some userExists)
      with g c1 Inr show ?thesis
        by (simp add: createOrder_def one_query_conn query_consistent)
    qed
  qed
next
  case (getOrderById c i)
  then show ?case by (simp add: getOrderById_def one_query_conn query_select_db)
next
  case (getOrderByNumber c n)
  then show ?case by (simp add: getOrderByNumber_def one_query_conn query_select_db)
next
  case (updateOrderStatus c i st)
  then show ?case by (simp add: updateOrderStatus_def one_query_conn' query_consistent)
next
  case (deleteOrder c i)
  then show ?case by (simp add: deleteOrder_def one_query_conn query_consistent)
next
  case (addOrderItem c orderItem)
  then show ?case by (simp add: addOrderItem_def one_query_conn query_consistent)
next
  case (getOrderItems c i)
  then show ?case by (simp add: getOrderItems_def query_select_db)
next
  case (removeOrderItem c i)
  then show ?case by (simp add: removeOrderItem_def one_query_conn query_consistent)
next
  case (verifyCleanup c)
  then show ?case by (simp add: verifyCleanup_db)
next
  case (cleanupTestData c)
  from cleanupTestData.IH show ?case by (rule cleanupTestData_consistent)
qed

section \<open>What the service methods return\<close>

lemma first_row_filter: "first_row (filter P xs) = find P xs"
  by (induction xs) (auto simp: first_row_def)

lemma id_column: "column_named t ''id'' = Some (mk_column ''id'' INTEGER True True Serial None)"
  by (cases t) (simp_all add: column_named_def mk_column_def)

lemma ctype_id [simp]: "ctype (mk_column ''id'' INTEGER True True Serial None) = INTEGER"
  by (simp add: mk_column_def)

lemma input_id:
  "in_integer_range i \<Longrightarrow> input cv INTEGER (Number i) = Inr (Number i)"
  by (auto simp: input_def in_integer_range_def)

lemma input_id_rejected:
  "\<not> in_integer_range i \<Longrightarrow> \<exists>e. input cv INTEGER (Number i) = Inl e \<and> store_error e"
  by (simp add: input_def)

lemma input_id_accepted:
  "input cv INTEGER (Number i) = Inr w \<Longrightarrow> in_integer_range i \<and> w = Number i"
  by (simp add: input_def split: if_splits)

lemma input_null [simp]: "input cv ty Null = Inr Null"
  by (simp add: input_def)

lemma input_string [simp]:
  "input cv (VARCHAR n) (Str x) = Inr (Str x)" "input cv TEXT (Str x) = Inr (Str x)"
  by (simp_all add: input_def)

lemma input_opt [simp]:
  "input cv (VARCHAR n) (opt x) = Inr (opt x)" "input cv TEXT (opt x) = Inr (opt x)"
  by (cases x; simp add: opt_def)+

lemma fit_null [simp]: "fit ty Null = Inr Null"
  by (cases ty) simp_all

lemma text_input_store: "text_input v = Some (Inl e) \<Longrightarrow> store_error e"
  by (cases v) (simp_all split: if_splits)

lemma own_input_store: "own_input ty v = Some (Inl e) \<Longrightarrow> store_error e"
  by (induction ty v rule: own_input.induct) (auto split: if_splits dest: text_input_store)

lemma input_store: "input cv ty v = Inl e \<Longrightarrow> store_error e"
  by (auto simp: input_def split: option.splits dest: own_input_store)

lemma fit_store: "fit ty v = Inl e \<Longrightarrow> store_error e"
  by (induction ty v rule: fit.induct) (auto split: if_splits)

lemma convert_all_store:
  assumes "convert_all f t as = Inl e" "\<And>ty v e. f ty v = Inl e \<Longrightarrow> store_error e"
  shows "store_error e"
  using assms(1)
proof (induction as)
  case Nil
  then show ?case by simp
next
  case (Cons a as)
  obtain c v where a: "a = (c, v)" by (cases a)
  from Cons.prems Cons.IH show ?case
    unfolding a by (auto split: option.splits sum.splits dest: assms(2))
qed

lemma row_error_store: "row_error s t others r = Some e \<Longrightarrow> store_error e"
  by (auto simp: row_error_def not_null_violation_def unique_violation_def
      foreign_key_violation_def split: option.splits)

lemma exec_insert_store:
  assumes "exec now s (Insert t params) = (Inl e, s')"
  shows "store_error e"
proof (cases "length params = length (insert_columns t)")
  case False
  with assms show ?thesis by (simp add: exec.simps)
next
  case len: True
  show ?thesis
  proof (cases "convert_all (input (conversions s)) t (zip (insert_columns t) params)")
    case (Inl e')
    with assms len have "e' = e" by (simp add: exec.simps)
    with Inl show ?thesis by (auto intro: convert_all_store input_store)
  next
    case bound: (Inr bound)
    show ?thesis
    proof (cases "convert_all fit t bound")
      case (Inl e')
      with assms len bound have "e' = e" by (simp add: exec.simps)
      with Inl show ?thesis by (auto intro: convert_all_store fit_store)
    next
      case given: (Inr given)
      with assms len bound show ?thesis
        by (auto simp: exec.simps Let_def split: if_splits option.splits dest: row_error_store)
    qed
  qed
qed

lemma exec_update_store:
  assumes "exec now s (Update t flds params) = (Inl e, s')"
  shows "store_error e"
proof (cases "undefined_column t (flds @ [''updated_at''])")
  case (Some e')
  with assms have "e' = e" by (simp add: exec.simps)
  with Some show ?thesis by (auto simp: undefined_column_def)
next
  case cols: None
  show ?thesis
  proof (cases "distinct (flds @ [''updated_at'']) \<and> length params = length flds + 1")
    case False
    with assms cols show ?thesis by (auto simp: exec.simps split: if_splits)
  next
    case ok: True
    show ?thesis
    proof (cases "input (conversions s) INTEGER (hd params)")
      case (Inl e')
      with assms cols ok have "e' = e" by (simp add: exec.simps)
      with Inl show ?thesis by (auto dest: input_store)
    next
      case i: (Inr i)
      show ?thesis
      proof (cases "convert_all (input (conversions s)) t (zip flds (tl params))")
        case (Inl e')
        with assms cols ok i have "e' = e" by (simp add: exec.simps)
        with Inl show ?thesis by (auto intro: convert_all_store input_store)
      next
        case bound: (Inr bound)
        show ?thesis
        proof (cases "convert_all fit t bound")
          case (Inl e')
          with assms cols ok i bound have "e' = e" by (simp add: exec.simps)
          with Inl show ?thesis by (auto intro: convert_all_store fit_store)
        next
          case given: (Inr given)
          with assms cols ok i bound show ?thesis
            by (auto simp: exec.simps Let_def split: option.splits dest: row_error_store)
        qed
      qed
    qed
  qed
qed

lemma exec_error_store:
  assumes "exec now s st = (Inl e, s')"
  shows "store_error e"
proof (cases st)
  case (Insert t params)
  with assms show ?thesis by (auto dest: exec_insert_store)
next
  case (Update t flds params)
  with assms show ?thesis by (auto dest: exec_update_store)
next
  case (Select t c v)
  with assms show ?thesis
    by (auto simp: exec.simps split: option.splits sum.splits dest: input_store)
next
  case (Delete t v)
  with assms show ?thesis
    by (auto simp: exec.simps split: option.splits sum.splits dest: input_store)
qed (use assms in \<open>simp_all add: exec.simps\<close>)

lemma query_error_store: "query c st = (Inl e, c') \<Longrightarrow> store_error e"
  by (cases "exec (clock c) (db c) st") (auto simp: query_def dest: exec_error_store)

lemma query_select_id:
  "in_integer_range i \<Longrightarrow>
   query c (Select t ''id'' (Number i))
     = (Inr [r \<leftarrow> rows (db c) t. matches ''id'' (Number i) r],
        c\<lparr>sent := sent c @ [Select t ''id'' (Number i)]\<rparr>)"
  by (simp add: query_def exec.simps id_column input_id)

lemma query_select_conn:
  "snd (query c (Select t k v)) = c\<lparr>sent := sent c @ [Select t k v]\<rparr>"
  by (simp add: query_def exec.simps split: option.splits sum.splits)

lemma query_select_id_rejected:
  "\<not> in_integer_range i \<Longrightarrow> \<exists>e. fst (query c (Select t ''id'' (Number i))) = Inl e \<and> store_error e"
  using input_id_rejected[of i "conversions (db c)"]
  by (auto simp: query_def exec.simps id_column)

lemma no_match: "Number i \<notin> set (ids s t) \<Longrightarrow> [r \<leftarrow> rows s t. matches ''id'' (Number i) r] = []"
  by (force simp: ids_def matches_def filter_empty_conv)

lemma getUserById_eval:
  "in_integer_range i \<Longrightarrow>
   getUserById c i =
     (Inr (find (matches ''id'' (Number i)) (rows (db c) Users)),
      c\<lparr>sent := sent c @ [Select Users ''id'' (Number i)]\<rparr>)"
  by (simp add: getUserById_def query_select_id first_row_filter)

lemma getProductById_eval:
  "in_integer_range i \<Longrightarrow>
   getProductById c i =
     (Inr (find (matches ''id'' (Number i)) (rows (db c) Products)),
      c\<lparr>sent := sent c @ [Select Products ''id'' (Number i)]\<rparr>)"
  by (simp add: getProductById_def query_select_id first_row_filter)

lemma getOrderById_eval:
  "in_integer_range i \<Longrightarrow>
   getOrderById c i =
     (Inr (find (matches ''id'' (Number i)) (rows (db c) Orders)),
      c\<lparr>sent := sent c @ [Select Orders ''id'' (Number i)]\<rparr>)"
  by (simp add: getOrderById_def query_select_id first_row_filter)

lemma getUserById_conn:
  "snd (getUserById c i) = c\<lparr>sent := sent c @ [Select Users ''id'' (Number i)]\<rparr>"
  by (simp add: getUserById_def one_query_conn query_select_conn)

lemma getProductById_conn:
  "snd (getProductById c i) = c\<lparr>sent := sent c @ [Select Products ''id'' (Number i)]\<rparr>"
  by (simp add: getProductById_def one_query_conn query_select_conn)

lemma getUserById_rejected:
  assumes "\<not> in_integer_range i"
  shows "\<exists>e. fst (getUserById c i) = Inl e \<and> store_error e"
proof -
  from query_select_id_rejected[OF assms, of c Users] obtain e where
    "fst (query c (Select Users ''id'' (Number i))) = Inl e" "store_error e"
    by blast
  then show ?thesis
    by (cases "query c (Select Users ''id'' (Number i))") (auto simp: getUserById_def)
qed

lemma getUserById_found:
  "fst (getUserById c i) = Inr (Some r)
   \<Longrightarrow> in_integer_range i \<and> find (matches ''id'' (Number i)) (rows (db c) Users) = Some r"
  using getUserById_rejected[of i c] getUserById_eval[of i c] by (cases "in_integer_range i") auto

lemma getProductById_rejected:
  assumes "\<not> in_integer_range i"
  shows "\<exists>e. fst (getProductById c i) = Inl e \<and> store_error e"
proof -
  from query_select_id_rejected[OF assms, of c Products] obtain e where
    "fst (query c (Select Products ''id'' (Number i))) = Inl e" "store_error e"
    by blast
  then show ?thesis
    by (cases "query c (Select Products ''id'' (Number i))") (auto simp: getProductById_def)
qed

lemma getProductById_found:
  "fst (getProductById c i) = Inr (Some r)
   \<Longrightarrow> in_integer_range i \<and> find (matches ''id'' (Number i)) (rows (db c) Products) = Some r"
  using getProductById_rejected[of i c] getProductById_eval[of i c]
  by (cases "in_integer_range i") auto

lemma createOrder_unknown_user_aux:
  assumes "Number (user_id order) \<notin> set (ids (db c) Users)"
  shows "\<exists>e. createOrder c order
           = (Inl e, c\<lparr>sent := sent c @ [Select Users ''id'' (Number (user_id order))]\<rparr>)
         \<and> (if in_integer_range (user_id order)
            then e = Error (''User with ID '' @ show_int (user_id order) @ '' does not exist'')
            else store_error e)"
proof (cases "in_integer_range (user_id order)")
  case True
  with assms show ?thesis
    by (simp add: createOrder_def getUserById_eval no_match first_row_filter[symmetric]
        first_row_def)
next
  case False
  from getUserById_rejected[OF False, of c] obtain e where
    e: "fst (getUserById c (user_id order)) = Inl e" "store_error e"
    by blast
  then have "getUserById c (user_id order)
      = (Inl e, c\<lparr>sent := sent c @ [Select Users ''id'' (Number (user_id order))]\<rparr>)"
    using getUserById_conn[of c "user_id order"]
    by (cases "getUserById c (user_id order)") simp
  with e(2) False show ?thesis
    by (simp add: createOrder_def)
qed

lemma column_status:
  "column_named Orders ''status''
     = Some (mk_column ''status'' (VARCHAR 20) False False (Const (Str ''pending'')) None)"
  by (simp add: column_named_def mk_column_def)

lemma status_fits [simp]: "length (OrderStatus_value st) \<le> 20"
  by (cases st) simp_all

lemma exec_update_status:
  "exec now s (Update Orders [''status''] [Number i, Str (OrderStatus_value st)]) =
     (case input (conversions s) INTEGER (Number i) of
        Inl e \<Rightarrow> (Inl e, s)
      | Inr w \<Rightarrow>
          (case find (matches ''id'' w) (rows s Orders) of
             None \<Rightarrow> (Inr [], s)
           | Some r \<Rightarrow>
               (let r' = AList.updates [''status'', ''updated_at'']
                           [Str (OrderStatus_value st), Timestamp now] r
                in case row_error s Orders (remove1 r (rows s Orders)) r' of
                     Some e \<Rightarrow> (Inl e, s)
                   | None \<Rightarrow>
                       (Inr [r'],
                        set_rows s Orders (update_first (matches ''id'' w) r' (rows s Orders))))))"
  by (simp add: exec.simps undefined_column_def column_named_def mk_column_def Let_def
      split: sum.splits option.splits)

lemma updateOrderStatus_absent_aux:
  assumes "Number i \<notin> set (ids (db c) Orders)"
  shows "\<exists>e. updateOrderStatus c i st
           = (Inl e, c\<lparr>sent := sent c @ [Update Orders [''status'']
                                            [Number i, Str (OrderStatus_value st)]]\<rparr>)
         \<and> (if in_integer_range i
            then e = Error (''Order with ID '' @ show_int i @ '' not found'')
            else store_error e)"
proof (cases "in_integer_range i")
  case True
  have "find (matches ''id'' (Number i)) (rows (db c) Orders) = None"
    using assms by (force simp: find_None_iff ids_def matches_def)
  with True have "exec (clock c) (db c) (Update Orders [''status''] [Number i, Str (OrderStatus_value st)])
      = (Inr [], db c)"
    by (simp add: exec_update_status input_id)
  with True show ?thesis
    by (simp add: updateOrderStatus_def query_def)
next
  case False
  from input_id_rejected[OF False, of "conversions (db c)"] obtain e where
    e: "input (conversions (db c)) INTEGER (Number i) = Inl e" "store_error e"
    by blast
  then have "exec (clock c) (db c) (Update Orders [''status''] [Number i, Str (OrderStatus_value st)])
      = (Inl e, db c)"
    by (simp add: exec_update_status)
  with e(2) False show ?thesis
    by (simp add: updateOrderStatus_def query_def)
qed

lemma no_updatable_keys:
  "set (map fst updates) \<subseteq> {''id'', ''created_at''} \<Longrightarrow> update_fields updates = []"
  by (auto simp: update_fields_def filter_empty_conv)

lemma c10_aux:
  assumes "set (map fst updates) \<subseteq> {''id'', ''created_at''}"
  shows "updateUser c i updates = getUserById c i"
    and "updateProduct c i updates = getProductById c i"
  using no_updatable_keys[OF assms] by (simp_all add: updateUser_def updateProduct_def)

lemma query_delete:
  "in_integer_range i \<Longrightarrow>
   query c (Delete t (Number i))
     = (Inr (map (\<lambda>r. [(''id'', col r ''id'')]) [r \<leftarrow> rows (db c) t. matches ''id'' (Number i) r]),
        c\<lparr>db := delete_rows (db c) t (Number i), sent := sent c @ [Delete t (Number i)]\<rparr>)"
  by (simp add: query_def exec.simps input_id)

lemma query_delete_rejected:
  assumes "\<not> in_integer_range i"
  shows "\<exists>e. query c (Delete t (Number i)) = (Inl e, c\<lparr>sent := sent c @ [Delete t (Number i)]\<rparr>)
     \<and> store_error e"
  using input_id_rejected[OF assms, of "conversions (db c)"]
  by (auto simp: query_def exec.simps)

lemma rows_delete_rows_same:
  "rows (delete_rows s t v) t = [r \<leftarrow> rows s t. \<not> matches ''id'' v r]"
  by (cases t) (simp_all add: Let_def rows_delete_referencing)

lemma deleteUser_eval:
  "in_integer_range i \<Longrightarrow>
   deleteUser c i =
     (Inr ([r \<leftarrow> rows (db c) Users. matches ''id'' (Number i) r] \<noteq> []),
      c\<lparr>db := delete_rows (db c) Users (Number i), sent := sent c @ [Delete Users (Number i)]\<rparr>)"
  by (simp add: deleteUser_def query_delete)

lemma deleteUser_absent:
  "in_integer_range j \<Longrightarrow> Number j \<notin> set (ids (db c) Users) \<Longrightarrow> fst (deleteUser c j) = Inr False"
  by (simp add: deleteUser_eval no_match)

lemma deleteUser_rejected:
  assumes "\<not> in_integer_range j"
  shows "\<exists>e. deleteUser c j = (Inl e, c\<lparr>sent := sent c @ [Delete Users (Number j)]\<rparr>) \<and> store_error e"
  using query_delete_rejected[OF assms, of c Users] by (auto simp: deleteUser_def)

lemma deleteOrder_absent:
  "in_integer_range j \<Longrightarrow> Number j \<notin> set (ids (db c) Orders) \<Longrightarrow> fst (deleteOrder c j) = Inr False"
  by (simp add: deleteOrder_def query_delete no_match)

lemma getOrderById_absent:
  "in_integer_range j \<Longrightarrow> Number j \<notin> set (ids (db c) Orders) \<Longrightarrow> fst (getOrderById c j) = Inr None"
  by (simp add: getOrderById_eval find_None_iff ids_def matches_def) force

lemma find_append:
  "find P (xs @ ys) = (case find P xs of None \<Rightarrow> find P ys | Some x \<Rightarrow> Some x)"
  by (induction xs) auto

lemma fresh_id:
  assumes "consistent s"
  shows "Number (seq s t) \<notin> set (values_of ''id'' (rows s t))"
    and "Number (seq s t) \<notin> set (ids s t)"
  using assms[unfolded consistent_def table_ok_def, rule_format, of t]
  by (auto simp: set_values_of ids_def)

lemma list_all2_lookup:
  assumes "list_all2 (\<lambda>(c, v) (c', w). c' = c \<and> Q c v w) as given" "(c, v) \<in> set as"
  shows "\<exists>w. (c, w) \<in> set given \<and> Q c v w"
  using assms by (induction as given rule: list_all2_induct) auto

lemma list_all2_keys:
  assumes "list_all2 (\<lambda>(c, v) (c', w). c' = c \<and> Q c v w) as given"
  shows "map fst given = map fst as"
  using assms by (induction as given rule: list_all2_induct) auto

lemma col_new_row_given:
  assumes "distinct (map fst given)" "(c, w) \<in> set given" "column_named t c = Some k"
  shows "col (new_row t i now given) c = w"
proof -
  from column_named_Some[OF assms(3)] have "k \<in> set (columns t)" "cname k = c"
    by simp_all
  then have "map_of (map (\<lambda>k. (cname k, k)) (columns t)) c = Some k"
    using map_of_columns[of k t] by simp
  moreover have "map_of given c = Some w"
    using assms(1,2) by (rule map_of_is_SomeI)
  ultimately show ?thesis
    by (simp add: col_new_row)
qed

lemma stored_string:
  "column_named t c = Some k \<Longrightarrow> ctype k = VARCHAR n
   \<Longrightarrow> stored s t c (Str u) = fit (VARCHAR n) (Str u)"
  by (simp add: stored_def)

lemma insert_duplicate:
  assumes cons: "consistent s"
    and k: "k \<in> set (columns t)" "uniq k" "ctype k = VARCHAR n"
    and param: "(cname k, Str u) \<in> set (zip (insert_columns t) params)"
    and dup: "Str u \<in> set (values_of (cname k) (rows s t))"
  shows "\<exists>e. fst (exec now s (Insert t params)) = Inl e \<and> store_error e"
    and "rows (snd (exec now s (Insert t params))) = rows s"
proof -
  obtain res s' where ex: "exec now s (Insert t params) = (res, s')"
    by (cases "exec now s (Insert t params)")
  from ex have "(\<exists>e. res = Inl e \<and> store_error e) \<and> rows s' = rows s"
  proof (cases rule: exec_insert_cases)
    case (rejected e)
    with ex exec_insert_store[of now s t params e s'] show ?thesis
      by (auto simp: advance_def)
  next
    case (inserted r bound given)
    have la: "list_all2 (\<lambda>(c, v) (c', w). c' = c \<and> stored s t c v = Inr w)
        (zip (insert_columns t) params) given"
      using inserted(3,4) convert_all_stored[of s t "zip (insert_columns t) params" given]
      by blast
    from list_all2_lookup[OF la param] obtain w where
      w: "(cname k, w) \<in> set given" "stored s t (cname k) (Str u) = Inr w"
      by blast
    from dup obtain x where x: "x \<in> set (rows s t)" "col x (cname k) = Str u"
      by (auto simp: set_values_of)
    have "fit (ctype k) (col x (cname k)) = Inr (col x (cname k))"
      using cons k(1) x(1) by (simp add: consistent_def table_ok_def)
    then have "stored s t (cname k) (Str u) = Inr (Str u)"
      using stored_string[OF column_named_cname[OF k(1)] k(3), of s u] k(3) x(2) by simp
    with w(2) have wu: "w = Str u"
      by simp
    have "map fst given = insert_columns t"
      using list_all2_keys[OF la] inserted(2) by simp
    moreover have "distinct (insert_columns t)"
      by (cases t) simp_all
    ultimately have "distinct (map fst given)"
      by simp
    from col_new_row_given[OF this w(1) column_named_cname[OF k(1)]]
    have "col r (cname k) = Str u"
      unfolding inserted(6) wu .
    with dup k(1,2) have "unique_violation t (rows s t) r \<noteq> None"
      by (auto simp: unique_violation_None)
    with inserted(7) show ?thesis
      by (simp add: row_error_None)
  qed
  with ex show "\<exists>e. fst (exec now s (Insert t params)) = Inl e \<and> store_error e"
    and "rows (snd (exec now s (Insert t params))) = rows s"
    by simp_all
qed

lemma createUser_query:
  "createUser c user =
     (case query c (Insert Users (user_params user)) of
        (Inl e, c') \<Rightarrow> (Inl e, c')
      | (Inr result, c') \<Rightarrow>
          (case result of [] \<Rightarrow> (Inl TypeError, c') | createdUser # _ \<Rightarrow> (Inr createdUser, c')))"
  by (simp add: createUser_def user_params_def)

lemma createProduct_query:
  "createProduct c product =
     (case query c (Insert Products (product_params product)) of
        (Inl e, c') \<Rightarrow> (Inl e, c')
      | (Inr result, c') \<Rightarrow> (Inr (first_row result), c'))"
  by (simp add: createProduct_def product_params_def)

lemma query_rejected:
  assumes "\<exists>e. fst (exec (clock c) (db c) st) = Inl e \<and> store_error e"
    and "rows (snd (exec (clock c) (db c) st)) = rows (db c)"
  shows "\<exists>e. fst (query c st) = Inl e \<and> store_error e" and "rows (db (snd (query c st))) = rows (db c)"
  using assms by (cases "exec (clock c) (db c) st"; auto simp: query_def)+

lemma createUser_duplicate:
  assumes cons: "consistent (db c)"
    and dup: "Str (username user) \<in> set (values_of ''username'' (rows (db c) Users))
      \<or> Str (email user) \<in> set (values_of ''email'' (rows (db c) Users))"
  shows "\<exists>e. fst (createUser c user) = Inl e \<and> store_error e"
    and "rows (db (snd (createUser c user))) = rows (db c)"
proof -
  let ?ex = "exec (clock c) (db c) (Insert Users (user_params user))"
  have "(\<exists>e. fst ?ex = Inl e \<and> store_error e) \<and> rows (snd ?ex) = rows (db c)"
    using dup
  proof
    assume d: "Str (username user) \<in> set (values_of ''username'' (rows (db c) Users))"
    show ?thesis
      using insert_duplicate[OF cons,
          of "mk_column ''username'' (VARCHAR 50) True True NoDefault None" Users 50
            "username user" "user_params user" "clock c"] d
      by (simp add: mk_column_def user_params_def)
  next
    assume d: "Str (email user) \<in> set (values_of ''email'' (rows (db c) Users))"
    show ?thesis
      using insert_duplicate[OF cons,
          of "mk_column ''email'' (VARCHAR 100) True True NoDefault None" Users 100
            "email user" "user_params user" "clock c"] d
      by (simp add: mk_column_def user_params_def)
  qed
  then have q: "\<exists>e. fst (query c (Insert Users (user_params user))) = Inl e \<and> store_error e"
    "rows (db (snd (query c (Insert Users (user_params user))))) = rows (db c)"
    by (auto intro: query_rejected)
  from q show "\<exists>e. fst (createUser c user) = Inl e \<and> store_error e"
    by (cases "query c (Insert Users (user_params user))") (auto simp: createUser_query)
  from q show "rows (db (snd (createUser c user))) = rows (db c)"
    by (cases "query c (Insert Users (user_params user))") (auto simp: createUser_query)
qed

lemma createProduct_duplicate:
  assumes cons: "consistent (db c)"
    and dup: "Str (sku product) \<in> set (values_of ''sku'' (rows (db c) Products))"
  shows "\<exists>e. fst (createProduct c product) = Inl e \<and> store_error e"
    and "rows (db (snd (createProduct c product))) = rows (db c)"
proof -
  let ?ex = "exec (clock c) (db c) (Insert Products (product_params product))"
  have "(\<exists>e. fst ?ex = Inl e \<and> store_error e) \<and> rows (snd ?ex) = rows (db c)"
    using insert_duplicate[OF cons,
        of "mk_column ''sku'' (VARCHAR 50) True True NoDefault None" Products 50
          "sku product" "product_params product" "clock c"] dup
    by (simp add: mk_column_def product_params_def)
  then have q: "\<exists>e. fst (query c (Insert Products (product_params product))) = Inl e \<and> store_error e"
    "rows (db (snd (query c (Insert Products (product_params product))))) = rows (db c)"
    by (auto intro: query_rejected)
  from q show "\<exists>e. fst (createProduct c product) = Inl e \<and> store_error e"
    by (cases "query c (Insert Products (product_params product))") (auto simp: createProduct_query)
  from q show "rows (db (snd (createProduct c product))) = rows (db c)"
    by (cases "query c (Insert Products (product_params product))") (auto simp: createProduct_query)
qed

lemma user_row_eval:
  "user_row i now user =
     [(''id'', Number i), (''username'', Str (username user)), (''email'', Str (email user)),
      (''password'', Str (password user)), (''first_name'', Str (first_name user)),
      (''last_name'', Str (last_name user)), (''phone'', opt (phone user)),
      (''address'', opt (address user)), (''city'', opt (city user)),
      (''state'', opt (state user)), (''zip_code'', opt (zip_code user)),
      (''country'', opt (country user)), (''created_at'', Timestamp now),
      (''updated_at'', Timestamp now)]"
  by (simp add: user_row_def user_params_def new_row_def mk_column_def default_value_def)

lemma fit_opt [simp]: "at_most n x \<Longrightarrow> fit (VARCHAR n) (opt x) = Inr (opt x)"
  by (cases x) (simp_all add: opt_def at_most_def)

lemma fit_text_opt [simp]: "fit TEXT (opt x) = Inr (opt x)"
  by (cases x) (simp_all add: opt_def)

lemma user_bound:
  "convert_all (input cv) Users (zip (insert_columns Users) (user_params user))
     = Inr (zip (insert_columns Users) (user_params user))"
  by (simp add: user_params_def column_named_def mk_column_def)

lemma user_given:
  "within_widths user \<Longrightarrow>
   convert_all fit Users (zip (insert_columns Users) (user_params user))
     = Inr (zip (insert_columns Users) (user_params user))"
  by (simp add: user_params_def column_named_def mk_column_def within_widths_def)

lemma length_user_params: "length (user_params user) = length (insert_columns Users)"
  by (simp add: user_params_def)

lemma exec_insert_user:
  assumes "within_widths user" "seq s Users \<le> 2147483647"
  shows "exec now s (Insert Users (user_params user)) =
     (case row_error s Users (rows s Users) (user_row (seq s Users) now user) of
        Some e \<Rightarrow> (Inl e, advance s Users)
      | None \<Rightarrow> (Inr [user_row (seq s Users) now user],
           set_rows (advance s Users) Users (rows s Users @ [user_row (seq s Users) now user])))"
  using assms(2)
  by (simp add: exec.simps length_user_params user_bound user_given[OF assms(1)] Let_def
      user_row_def advance_def del: insert_columns.simps split: option.splits)

lemma user_not_null: "not_null_violation Users (user_row i now user) = None"
  by (simp add: not_null_violation_None user_row_eval mk_column_def col_def)

lemma user_fk: "foreign_key_violation s Users r = None"
  by (simp add: foreign_key_violation_def mk_column_def)

lemma user_unique:
  "unique_violation Users others (user_row i now user) = None \<longleftrightarrow>
     Number i \<notin> set (values_of ''id'' others)
     \<and> Str (username user) \<notin> set (values_of ''username'' others)
     \<and> Str (email user) \<notin> set (values_of ''email'' others)"
  by (simp add: unique_violation_None user_row_eval mk_column_def col_def)

lemma createUser_fresh:
  assumes cons: "consistent (db c)"
    and fresh: "Str (username user) \<notin> set (values_of ''username'' (rows (db c) Users))"
      "Str (email user) \<notin> set (values_of ''email'' (rows (db c) Users))"
    and fits: "within_widths user" "seq (db c) Users \<le> 2147483647"
  shows "createUser c user =
     (Inr (user_row (seq (db c) Users) (clock c) user),
      c\<lparr>db := set_rows (advance (db c) Users) Users
             (rows (db c) Users @ [user_row (seq (db c) Users) (clock c) user]),
        sent := sent c @ [Insert Users (user_params user)]\<rparr>)"
proof -
  have "row_error (db c) Users (rows (db c) Users) (user_row (seq (db c) Users) (clock c) user)
      = None"
    using fresh fresh_id(1)[OF cons, of Users]
    by (simp add: row_error_None user_not_null user_fk user_unique)
  then show ?thesis
    by (simp add: createUser_query query_def exec_insert_user[OF fits])
qed

lemma user_lifecycle_aux:
  assumes cons: "consistent (db c)"
    and fresh: "Str (username user) \<notin> set (values_of ''username'' (rows (db c) Users))"
      "Str (email user) \<notin> set (values_of ''email'' (rows (db c) Users))"
    and fits: "within_widths user" "seq (db c) Users \<le> 2147483647"
  shows "\<exists>r i c1 c2 c3 c4.
      createUser c user = (Inr r, c1)
      \<and> col r ''id'' = Number i
      \<and> col r ''username'' = Str (username user)
      \<and> col r ''email'' = Str (email user)
      \<and> getUserById c1 i = (Inr (Some r), c2)
      \<and> deleteUser c2 i = (Inr True, c3)
      \<and> getUserById c3 i = (Inr None, c4)"
proof -
  let ?n = "seq (db c) Users"
  let ?r = "user_row ?n (clock c) user"
  let ?P = "matches ''id'' (Number ?n)"
  have "0 < ?n"
    using cons by (simp add: consistent_def table_ok_def)
  with fits(2) have range: "in_integer_range ?n"
    by (simp add: in_integer_range_def)
  have old: "\<forall>x\<in>set (rows (db c) Users). \<not> ?P x"
    using fresh_id(2)[OF cons, of Users] by (force simp: ids_def matches_def)
  have new: "?P ?r"
    by (simp add: matches_def user_row_eval col_def)
  have f1: "find ?P (rows (db c) Users @ [?r]) = Some ?r"
    using old new by (simp add: find_append find_None_iff[THEN iffD2])
  have f2: "[x \<leftarrow> rows (db c) Users @ [?r]. ?P x] \<noteq> []"
    using new by simp
  have f3: "find ?P [x \<leftarrow> rows (db c) Users @ [?r]. \<not> ?P x] = None"
    by (auto simp: find_None_iff)
  define c1 where "c1 = c\<lparr>db := set_rows (advance (db c) Users) Users (rows (db c) Users @ [?r]),
      sent := sent c @ [Insert Users (user_params user)]\<rparr>"
  define c2 where "c2 = c1\<lparr>sent := sent c1 @ [Select Users ''id'' (Number ?n)]\<rparr>"
  define c3 where "c3 = c2\<lparr>db := delete_rows (db c2) Users (Number ?n),
      sent := sent c2 @ [Delete Users (Number ?n)]\<rparr>"
  define c4 where "c4 = c3\<lparr>sent := sent c3 @ [Select Users ''id'' (Number ?n)]\<rparr>"
  have rows1: "rows (db c2) Users = rows (db c) Users @ [?r]"
    by (simp add: c2_def c1_def)
  have s1: "createUser c user = (Inr ?r, c1)"
    unfolding c1_def by (rule createUser_fresh[OF assms])
  have s2: "getUserById c1 ?n = (Inr (Some ?r), c2)"
    unfolding getUserById_eval[OF range] c2_def using f1 by (simp add: c1_def)
  have s3: "deleteUser c2 ?n = (Inr True, c3)"
    unfolding deleteUser_eval[OF range] c3_def rows1 using f2 by simp
  have rows3: "rows (db c3) Users = [x \<leftarrow> rows (db c) Users @ [?r]. \<not> ?P x]"
    unfolding c3_def using rows1 by (simp add: rows_delete_rows_same del: delete_rows.simps)
  have s4: "getUserById c3 ?n = (Inr None, c4)"
    unfolding getUserById_eval[OF range] c4_def by (simp only: rows3 f3)
  have cols: "col ?r ''id'' = Number ?n" "col ?r ''username'' = Str (username user)"
    "col ?r ''email'' = Str (email user)"
    by (simp_all add: user_row_eval col_def)
  from s1 s2 s3 s4 cols show ?thesis by blast
qed

lemma values_of_not_null:
  "\<forall>r\<in>set rs. col r k \<noteq> Null \<Longrightarrow> values_of k rs = map (\<lambda>r. col r k) rs"
  by (simp add: values_of_def)

lemma distinct_key_column:
  assumes "consistent (db c)" "k \<in> set (columns t)" "uniq k" "not_null k"
  shows "distinct (column_values c t (cname k))"
proof -
  from assms have nn: "\<forall>r\<in>set (rows (db c) t). col r (cname k) \<noteq> Null"
    and d: "distinct (values_of (cname k) (rows (db c) t))"
    by (auto simp: consistent_def table_ok_def)
  from d show ?thesis
    unfolding column_values_def values_of_not_null[OF nn] .
qed

lemma natural_keys_distinct:
  assumes "consistent (db c)"
  shows "distinct (column_values c Users ''username'')"
    and "distinct (column_values c Users ''email'')"
    and "distinct (column_values c Products ''sku'')"
    and "distinct (column_values c Orders ''order_number'')"
  using distinct_key_column[OF assms, of "mk_column ''username'' (VARCHAR 50) True True NoDefault None" Users]
    distinct_key_column[OF assms, of "mk_column ''email'' (VARCHAR 100) True True NoDefault None" Users]
    distinct_key_column[OF assms, of "mk_column ''sku'' (VARCHAR 50) True True NoDefault None" Products]
    distinct_key_column[OF assms, of "mk_column ''order_number'' (VARCHAR 50) True True NoDefault None" Orders]
  by (simp_all add: mk_column_def)

lemma in_column_values:
  "Str x \<in> set (column_values c t k) \<longleftrightarrow> Str x \<in> set (values_of k (rows (db c) t))"
  by (auto simp: column_values_def set_values_of)

lemma update_fields_all:
  "''id'' \<notin> set (map fst updates) \<Longrightarrow> ''created_at'' \<notin> set (map fst updates)
   \<Longrightarrow> update_fields updates = map fst updates"
  unfolding update_fields_def by (rule filter_True) force

lemma update_values_all:
  assumes "update_fields updates = map fst updates" "[] \<notin> set (map fst updates)"
  shows "update_values updates = map snd updates"
proof -
  let ?zs = "zip [0..<length updates] (map snd updates)"
  have key: "map fst updates ! index \<noteq> []" if "index < length updates" for index
    using assms(2) that by (metis length_map nth_mem)
  have "(index, v) \<in> set ?zs \<Longrightarrow> index < length updates \<and> map fst updates ! index \<noteq> []"
    for index v
    using key by (auto simp: set_zip)
  then have "[(index, v) \<leftarrow> ?zs. index < length (update_fields updates)
      \<and> update_fields updates ! index \<noteq> []] = ?zs"
    unfolding assms(1) by (intro filter_True) auto
  then show ?thesis
    by (simp add: update_values_def)
qed

lemma list_all2_exists:
  assumes "\<forall>(c, v) \<in> set as. \<exists>w. Q c v w"
  shows "\<exists>given. list_all2 (\<lambda>(c, v) (c', w). c' = c \<and> Q c v w) as given"
  using assms
proof (induction as)
  case Nil
  show ?case by simp
next
  case (Cons a as)
  obtain c v where a: "a = (c, v)" by (cases a)
  from Cons.prems obtain w where w: "Q c v w"
    unfolding a by auto
  from Cons obtain given where "list_all2 (\<lambda>(c, v) (c', w). c' = c \<and> Q c v w) as given"
    by auto
  with w show ?case
    unfolding a by (intro exI[of _ "(c, w) # given"]) simp
qed

lemma no_foreign_key:
  "\<forall>k\<in>set (columns t). refs k = None \<Longrightarrow> foreign_key_violation s t r = None"
  by (auto simp: foreign_key_violation_def find_None_iff)

lemma single_match:
  assumes ok: "table_ok t (xs @ r # ys) n" and r: "matches ''id'' v r"
  shows "\<forall>y\<in>set (xs @ ys). \<not> matches ''id'' v y"
proof -
  have "mk_column ''id'' INTEGER True True Serial None \<in> set (columns t)"
    using column_named_Some[OF id_column] by simp
  with ok have "distinct (values_of ''id'' (xs @ r # ys))"
    unfolding table_ok_def by (auto simp: mk_column_def)
  with r have "v \<notin> set (values_of ''id'' xs)" "v \<notin> set (values_of ''id'' ys)"
    by (auto simp: values_of_append values_of_Cons matches_def)
  then have "v \<notin> set (values_of ''id'' (xs @ ys))"
    by (simp add: values_of_append)
  then show ?thesis
    by (force simp: set_values_of matches_def)
qed

lemma exec_update_run:
  assumes "undefined_column t (flds @ [''updated_at'']) = None"
    and "distinct (flds @ [''updated_at''])" "length vs = length flds"
    and "input (conversions s) INTEGER v = Inr i"
    and "convert_all (input (conversions s)) t (zip flds vs) = Inr bound"
    and "convert_all fit t bound = Inr given"
    and "find (matches ''id'' i) (rows s t) = Some r"
    and "row_error s t (remove1 r (rows s t))
           (AList.updates (flds @ [''updated_at'']) (map snd given @ [Timestamp now]) r) = None"
  shows "exec now s (Update t flds (v # vs)) =
     (Inr [AList.updates (flds @ [''updated_at'']) (map snd given @ [Timestamp now]) r],
      set_rows s t (update_first (matches ''id'' i)
        (AList.updates (flds @ [''updated_at'']) (map snd given @ [Timestamp now]) r) (rows s t)))"
  using assms by (simp add: exec.simps Let_def)

lemma update_accepted:
  assumes cons: "consistent s"
    and fk: "\<forall>k\<in>set (columns t). refs k = None"
    and ua: "column_named t ''updated_at'' = Some u" "\<not> uniq u"
    and range: "in_integer_range i"
    and prior: "find (matches ''id'' (Number i)) (rows s t) = Some r"
    and keys: "distinct (map fst updates)"
      "\<forall>(k, v) \<in> set updates. k \<notin> {''id'', ''created_at'', ''updated_at''}"
    and acc: "\<forall>(k, v) \<in> set updates. \<exists>column w.
        column_named t k = Some column \<and> stored s t k v = Inr w
        \<and> (not_null column \<longrightarrow> w \<noteq> Null)
        \<and> (uniq column \<and> w \<noteq> Null
             \<longrightarrow> w \<notin> set (map (\<lambda>x. col x k) [x \<leftarrow> rows s t. \<not> matches ''id'' (Number i) x]))"
  shows "\<exists>r'. exec now s (Update t (map fst updates) (Number i # map snd updates))
           = (Inr [r'], set_rows s t (update_first (matches ''id'' (Number i)) r' (rows s t)))
       \<and> (\<forall>(k, v) \<in> set updates. stored s t k v = Inr (col r' k))
       \<and> (\<forall>k. k \<notin> set (map fst updates) \<and> k \<noteq> ''updated_at'' \<longrightarrow> col r' k = col r k)
       \<and> col r' ''updated_at'' = Timestamp now"
proof -
  let ?P = "matches ''id'' (Number i)"
  let ?flds = "map fst updates"
  let ?ks = "?flds @ [''updated_at'']"
  from acc have "\<forall>(k, v) \<in> set updates. \<exists>w. stored s t k v = Inr w"
    by blast
  from list_all2_exists[OF this] obtain given where
    la: "list_all2 (\<lambda>(c, v) (c', w). c' = c \<and> stored s t c v = Inr w) updates given"
    by blast
  then obtain bound where
    bound: "convert_all (input (conversions s)) t (zip ?flds (map snd updates)) = Inr bound"
      "convert_all fit t bound = Inr given"
    using convert_all_stored[of s t updates given] by (auto simp: zip_map_fst_snd)
  let ?vs = "map snd given @ [Timestamp now]"
  let ?r' = "AList.updates ?ks ?vs r"
  have gk: "map fst given = ?flds"
    by (rule list_all2_keys[OF la])
  have lg: "length given = length updates"
    using arg_cong[OF gk, of length] by simp
  have lens: "length ?ks = length ?vs"
    by (simp add: lg)
  have zip: "zip ?ks ?vs = given @ [(''updated_at'', Timestamp now)]"
    using zip_map_fst_snd[of given] by (simp add: lg gk)
  have cols: "undefined_column t ?ks = None"
    using acc ua(1) by (auto simp: undefined_column_def find_None_iff)
  have dist: "distinct ?ks"
    using keys by auto
  have given_col: "col ?r' k = w" if "(k, w) \<in> set (given @ [(''updated_at'', Timestamp now)])"
    for k w
    using that dist lens unfolding zip[symmetric] by (intro col_updates_given)
  have supplied: "stored s t k v = Inr (col ?r' k)" if "(k, v) \<in> set updates" for k v
  proof -
    from list_all2_lookup[OF la that] obtain w where "(k, w) \<in> set given" "stored s t k v = Inr w"
      by blast
    with given_col[of k w] show ?thesis by simp
  qed
  have kept: "col ?r' k = col r k" if "k \<notin> set ?ks" for k
    using that by (rule col_updates_other)
  have stamp: "col ?r' ''updated_at'' = Timestamp now"
    by (rule given_col) simp
  from find_split[OF prior] obtain xs ys where
    sp: "rows s t = xs @ r # ys" "\<forall>x\<in>set xs. \<not> ?P x" "?P r"
    by blast
  have ok: "table_ok t (xs @ r # ys) (seq s t)"
    using cons[unfolded consistent_def, rule_format, of t] sp(1) by simp
  have others: "\<forall>y\<in>set (xs @ ys). \<not> ?P y"
    using ok sp(3) by (rule single_match)
  have rem: "remove1 r (rows s t) = xs @ ys"
    unfolding sp(1) using sp(2,3) by (rule remove1_split)
  have rest: "[x \<leftarrow> rows s t. \<not> ?P x] = xs @ ys"
    using others sp(3) by (simp add: sp(1))
  have nn: "not_null_violation t ?r' = None"
    unfolding not_null_violation_None
  proof (intro ballI impI)
    fix k assume k: "k \<in> set (columns t)" "not_null k"
    show "col ?r' (cname k) \<noteq> Null"
    proof (cases "cname k \<in> set ?flds")
      case True
      then obtain v where v: "(cname k, v) \<in> set updates"
        by auto
      with acc obtain column w where "column_named t (cname k) = Some column"
        "stored s t (cname k) v = Inr w" "not_null column \<longrightarrow> w \<noteq> Null"
        by blast
      with column_named_cname[OF k(1)] k(2) supplied[OF v] show ?thesis
        by simp
    next
      case False
      show ?thesis
      proof (cases "cname k = ''updated_at''")
        case True
        with stamp show ?thesis by simp
      next
        case False
        with \<open>cname k \<notin> set ?flds\<close> have "col ?r' (cname k) = col r (cname k)"
          by (intro kept) simp
        with ok k show ?thesis
          by (simp add: table_ok_def)
      qed
    qed
  qed
  have un: "unique_violation t (xs @ ys) ?r' = None"
    unfolding unique_violation_None
  proof (intro ballI impI)
    fix k assume k: "k \<in> set (columns t)" "uniq k"
    show "col ?r' (cname k) \<notin> set (values_of (cname k) (xs @ ys))"
    proof (cases "cname k \<in> set ?flds")
      case True
      then obtain v where v: "(cname k, v) \<in> set updates"
        by auto
      with acc obtain column w where "column_named t (cname k) = Some column"
        "stored s t (cname k) v = Inr w"
        "uniq column \<and> w \<noteq> Null
           \<longrightarrow> w \<notin> set (map (\<lambda>x. col x (cname k)) [x \<leftarrow> rows s t. \<not> ?P x])"
        by blast
      with column_named_cname[OF k(1)] k(2) supplied[OF v] show ?thesis
        by (auto simp: rest set_values_of)
    next
      case False
      have "cname k \<noteq> ''updated_at''"
        using column_named_cname[OF k(1)] ua k(2) by auto
      with False have "col ?r' (cname k) = col r (cname k)"
        by (intro kept) simp
      moreover have "distinct (values_of (cname k) (xs @ r # ys))"
        using ok k by (simp add: table_ok_def)
      ultimately show ?thesis
        by (auto simp: values_of_append values_of_Cons set_values_of split: if_splits)
    qed
  qed
  have "row_error s t (remove1 r (rows s t)) ?r' = None"
    unfolding rem by (simp add: row_error_None nn un no_foreign_key[OF fk])
  from exec_update_run[OF cols dist _ input_id[OF range] bound prior this]
  have "exec now s (Update t ?flds (Number i # map snd updates))
      = (Inr [?r'], set_rows s t (update_first ?P ?r' (rows s t)))"
    by simp
  with supplied kept stamp show ?thesis
    by (intro exI[of _ ?r']) auto
qed

lemma update_breach:
  assumes range: "in_integer_range i"
    and prior: "find (matches ''id'' (Number i)) (rows s t) = Some r"
    and breach: "\<exists>(k, v) \<in> set updates. \<exists>column w.
        column_named t k = Some column \<and> stored s t k v = Inr w
        \<and> (not_null column \<and> w = Null
            \<or> uniq column \<and> w \<noteq> Null
              \<and> w \<in> set (map (\<lambda>x. col x k) [x \<leftarrow> rows s t. \<not> matches ''id'' (Number i) x]))"
  shows "\<exists>e. exec now s (Update t (map fst updates) (Number i # map snd updates)) = (Inl e, s)
     \<and> store_error e"
proof -
  let ?P = "matches ''id'' (Number i)"
  let ?flds = "map fst updates"
  obtain res s' where ex: "exec now s (Update t ?flds (Number i # map snd updates)) = (res, s')"
    by (cases "exec now s (Update t ?flds (Number i # map snd updates))")
  from ex have "\<exists>e. res = Inl e \<and> s' = s \<and> store_error e"
  proof (cases rule: exec_update_cases)
    case (rejected e)
    with ex exec_update_store[of now s t ?flds "Number i # map snd updates" e s'] show ?thesis
      by simp
  next
    case (absent j)
    with input_id[OF range, of "conversions s"] prior show ?thesis
      by simp
  next
    case (updated j r0 r' bound given)
    from updated(5) input_id[OF range, of "conversions s"] have j: "j = Number i"
      by simp
    from updated(8) prior have r0: "r0 = r"
      by (simp add: j)
    let ?ks = "?flds @ [''updated_at'']"
    let ?vs = "map snd given @ [Timestamp now]"
    from updated(6,7) have la: "list_all2 (\<lambda>(c, v) (c', w). c' = c \<and> stored s t c v = Inr w)
        updates given"
      using convert_all_stored[of s t updates given] by (auto simp: zip_map_fst_snd)
    have gk: "map fst given = ?flds"
      by (rule list_all2_keys[OF la])
    have lg: "length given = length updates"
      using arg_cong[OF gk, of length] by simp
    have lens: "length ?ks = length ?vs"
      by (simp add: lg)
    have zip: "zip ?ks ?vs = given @ [(''updated_at'', Timestamp now)]"
      using zip_map_fst_snd[of given] by (simp add: lg gk)
    from breach obtain k v column w where b: "(k, v) \<in> set updates"
      "column_named t k = Some column" "stored s t k v = Inr w"
      "not_null column \<and> w = Null
        \<or> uniq column \<and> w \<noteq> Null \<and> w \<in> set (map (\<lambda>x. col x k) [x \<leftarrow> rows s t. \<not> ?P x])"
      by blast
    from list_all2_lookup[OF la b(1)] b(3) have "(k, w) \<in> set given"
      by auto
    then have "(k, w) \<in> set (zip ?ks ?vs)"
      unfolding zip by simp
    from col_updates_given[OF updated(4) lens this] have c: "col r' k = w"
      unfolding updated(9) .
    from column_named_Some[OF b(2)] have col: "column \<in> set (columns t)" "cname column = k"
      by simp_all
    from b(4) have "row_error s t (remove1 r (rows s t)) r' \<noteq> None"
    proof
      assume "not_null column \<and> w = Null"
      with c col have "not_null_violation t r' \<noteq> None"
        by (auto simp: not_null_violation_None)
      then show ?thesis
        by (simp add: row_error_None)
    next
      assume u: "uniq column \<and> w \<noteq> Null
        \<and> w \<in> set (map (\<lambda>x. col x k) [x \<leftarrow> rows s t. \<not> ?P x])"
      then obtain x where x: "x \<in> set (rows s t)" "\<not> ?P x" "col x k = w"
        by auto
      from prior have "?P r"
        by (auto simp: find_Some_iff)
      with x(2) have "x \<noteq> r"
        by auto
      with x(1) have "x \<in> set (remove1 r (rows s t))"
        by simp
      with x(3) u have "w \<in> set (values_of k (remove1 r (rows s t)))"
        by (auto simp: set_values_of)
      with c col u have "unique_violation t (remove1 r (rows s t)) r' \<noteq> None"
        by (auto simp: unique_violation_None)
      then show ?thesis
        by (simp add: row_error_None)
    qed
    with updated(10) show ?thesis
      by (simp add: r0)
  qed
  with ex show ?thesis by simp
qed

lemma exec_update_twice:
  assumes "''updated_at'' \<in> set flds"
  shows "\<exists>e. exec now s (Update t flds params) = (Inl e, s) \<and> store_error e"
proof -
  obtain res s' where ex: "exec now s (Update t flds params) = (res, s')"
    by (cases "exec now s (Update t flds params)")
  from ex have "\<exists>e. res = Inl e \<and> s' = s \<and> store_error e"
  proof (cases rule: exec_update_cases)
    case (rejected e)
    with ex exec_update_store[of now s t flds params e s'] show ?thesis
      by simp
  next
    case (absent j)
    from ex assms have "\<exists>e. res = Inl e"
      by (auto simp: exec.simps split: option.splits)
    with absent show ?thesis by simp
  next
    case (updated j r0 r' bound given)
    with assms show ?thesis by simp
  qed
  with ex show ?thesis by simp
qed

lemma exec_update_unknown:
  assumes "[] \<in> set flds"
  shows "\<exists>e. exec now s (Update t flds params) = (Inl e, s) \<and> store_error e"
proof -
  have "column_named t [] = None"
    by (cases t) (simp_all add: column_named_def mk_column_def)
  with assms have "undefined_column t (flds @ [''updated_at'']) \<noteq> None"
    by (auto simp: undefined_column_def find_None_iff)
  then show ?thesis
    by (auto simp: exec.simps undefined_column_def)
qed

text \<open>
  \<^verbatim>\<open>updateUser\<close> and \<^verbatim>\<open>updateProduct\<close> are the same method for two tables; \<open>upd\<close> and \<open>get\<close>
  stand for the pair.
\<close>

lemma update_method_accepted:
  assumes upd: "\<And>c i updates. upd c i updates =
        (let flds = update_fields updates; vals = update_values updates
         in if length flds = 0 then get c i
            else (case query c (Update t flds (Number i # vals)) of
                    (Inl e, c') \<Rightarrow> (Inl e, c')
                  | (Inr result, c') \<Rightarrow> (Inr (first_row result), c')))"
    and get: "\<And>c i. in_integer_range i \<Longrightarrow> get c i =
        (Inr (find (matches ''id'' (Number i)) (rows (db c) t)),
         c\<lparr>sent := sent c @ [Select t ''id'' (Number i)]\<rparr>)"
    and fk: "\<forall>k\<in>set (columns t). refs k = None"
    and ua: "column_named t ''updated_at'' = Some u" "\<not> uniq u"
    and cons: "consistent (db c)"
    and range: "in_integer_range i"
    and prior: "find (matches ''id'' (Number i)) (rows (db c) t) = Some r"
    and acc: "acceptable c t i updates"
  shows "\<exists>r' c'. upd c i updates = (Inr (Some r'), c')
      \<and> partial_update_of (db c) t updates r (clock c) r'
      \<and> fst (get c' i) = Inr (Some r') \<and> others_kept t i (db c) (db c')"
proof (cases "updates = []")
  case True
  with prior show ?thesis
    by (simp add: upd get[OF range] update_fields_def partial_update_of_def others_kept_def)
next
  case False
  let ?P = "matches ''id'' (Number i)"
  from acc have keys: "distinct (map fst updates)"
    "\<forall>(k, v) \<in> set updates. k \<notin> {''id'', ''created_at'', ''updated_at''}"
    by (auto simp: acceptable_def)
  from acc have acc': "\<forall>(k, v) \<in> set updates. \<exists>column w.
        column_named t k = Some column \<and> stored (db c) t k v = Inr w
        \<and> (not_null column \<longrightarrow> w \<noteq> Null)
        \<and> (uniq column \<and> w \<noteq> Null
             \<longrightarrow> w \<notin> set (map (\<lambda>x. col x k) [x \<leftarrow> rows (db c) t. \<not> ?P x]))"
    unfolding acceptable_def elsewhere_def by blast
  have flds: "update_fields updates = map fst updates"
    using keys(2) by (intro update_fields_all) auto
  have "column_named t [] = None"
    by (cases t) (simp_all add: column_named_def mk_column_def)
  with acc' have "[] \<notin> set (map fst updates)"
    by auto
  with flds have vals: "update_values updates = map snd updates"
    by (rule update_values_all)
  from update_accepted[OF cons fk ua range prior keys acc', of "clock c"] obtain r' where
    ex: "exec (clock c) (db c) (Update t (map fst updates) (Number i # map snd updates))
           = (Inr [r'], set_rows (db c) t (update_first ?P r' (rows (db c) t)))"
    and r': "\<forall>(k, v) \<in> set updates. stored (db c) t k v = Inr (col r' k)"
      "\<forall>k. k \<notin> set (map fst updates) \<and> k \<noteq> ''updated_at'' \<longrightarrow> col r' k = col r k"
      "col r' ''updated_at'' = Timestamp (clock c)"
    by blast
  define c' where "c' = c\<lparr>db := set_rows (db c) t (update_first ?P r' (rows (db c) t)),
      sent := sent c @ [Update t (map fst updates) (Number i # map snd updates)]\<rparr>"
  have q: "query c (Update t (map fst updates) (Number i # map snd updates)) = (Inr [r'], c')"
    by (simp add: query_def ex c'_def)
  have "length (map fst updates) \<noteq> 0"
    using False by simp
  then have u: "upd c i updates = (Inr (Some r'), c')"
    unfolding upd Let_def flds vals q by (simp add: first_row_def)
  from find_split[OF prior] obtain xs ys where
    sp: "rows (db c) t = xs @ r # ys" "\<forall>x\<in>set xs. \<not> ?P x" "?P r"
    by blast
  have uf: "update_first ?P r' (rows (db c) t) = xs @ r' # ys"
    unfolding sp(1) using sp(2,3) by (rule update_first_split)
  have "''id'' \<notin> set (map fst updates)"
    using keys(2) by auto
  with r'(2) have "col r' ''id'' = col r ''id''"
    by simp
  with sp(3) have P': "?P r'"
    by (simp add: matches_def)
  have rows': "rows (db c') t = xs @ r' # ys" "\<And>t'. t' \<noteq> t \<Longrightarrow> rows (db c') t' = rows (db c) t'"
    "seq (db c') = seq (db c)" "conversions (db c') = conversions (db c)"
    by (simp_all add: c'_def uf set_rows_def)
  have "find ?P (rows (db c') t) = Some r'"
    unfolding rows'(1) using sp(2) P' by (simp add: find_append find_None_iff[THEN iffD2])
  then have g: "fst (get c' i) = Inr (Some r')"
    by (simp add: get[OF range])
  have o: "others_kept t i (db c) (db c')"
    unfolding others_kept_def rows'(1,3,4) sp(1) using sp(2,3) P' rows'(2) by simp
  have p: "partial_update_of (db c) t updates r (clock c) r'"
    unfolding partial_update_of_def using r' by simp
  from u p g o show ?thesis by blast
qed

lemma update_method_rejected:
  assumes upd: "\<And>c i updates. upd c i updates =
        (let flds = update_fields updates; vals = update_values updates
         in if length flds = 0 then get c i
            else (case query c (Update t flds (Number i # vals)) of
                    (Inl e, c') \<Rightarrow> (Inl e, c')
                  | (Inr result, c') \<Rightarrow> (Inr (first_row result), c')))"
    and bad: "''updated_at'' \<in> set (map fst updates)
      \<or> (in_integer_range i \<and> find (matches ''id'' (Number i)) (rows (db c) t) = Some r
          \<and> ''id'' \<notin> set (map fst updates) \<and> ''created_at'' \<notin> set (map fst updates)
          \<and> breaks_constraint c t i updates)"
  shows "\<exists>e. fst (upd c i updates) = Inl e \<and> store_error e"
    and "db (snd (upd c i updates)) = db c"
proof -
  let ?flds = "update_fields updates"
  let ?st = "Update t ?flds (Number i # update_values updates)"
  have "?flds \<noteq> [] \<and> (\<exists>e. exec (clock c) (db c) ?st = (Inl e, db c) \<and> store_error e)"
    using bad
  proof
    assume "''updated_at'' \<in> set (map fst updates)"
    then have "''updated_at'' \<in> set ?flds"
      by (simp add: update_fields_def)
    with exec_update_twice[OF this] show ?thesis
      by auto
  next
    assume b: "in_integer_range i \<and> find (matches ''id'' (Number i)) (rows (db c) t) = Some r
          \<and> ''id'' \<notin> set (map fst updates) \<and> ''created_at'' \<notin> set (map fst updates)
          \<and> breaks_constraint c t i updates"
    then have flds: "?flds = map fst updates"
      by (intro update_fields_all) simp_all
    from b have "updates \<noteq> []"
      by (auto simp: breaks_constraint_def)
    then have ne: "?flds \<noteq> []"
      by (simp add: flds)
    have "\<exists>e. exec (clock c) (db c) ?st = (Inl e, db c) \<and> store_error e"
    proof (cases "[] \<in> set (map fst updates)")
      case True
      then have "[] \<in> set ?flds"
        by (simp add: flds)
      then show ?thesis
        by (rule exec_update_unknown)
    next
      case False
      with flds have vals: "update_values updates = map snd updates"
        by (rule update_values_all)
      from b have "\<exists>(k, v) \<in> set updates. \<exists>column w.
          column_named t k = Some column \<and> stored (db c) t k v = Inr w
          \<and> (not_null column \<and> w = Null
              \<or> uniq column \<and> w \<noteq> Null
                \<and> w \<in> set (map (\<lambda>x. col x k)
                    [x \<leftarrow> rows (db c) t. \<not> matches ''id'' (Number i) x]))"
        unfolding breaks_constraint_def elsewhere_def by blast
      from update_breach[OF _ _ this, of r "clock c"] b show ?thesis
        by (simp add: flds vals)
    qed
    with ne show ?thesis by simp
  qed
  then obtain e where ne: "?flds \<noteq> []"
    and e: "exec (clock c) (db c) ?st = (Inl e, db c)" "store_error e"
    by blast
  then have "upd c i updates = (Inl e, c\<lparr>db := db c, sent := sent c @ [?st]\<rparr>)"
    using ne by (simp add: upd query_def Let_def)
  with e(2) show "\<exists>e. fst (upd c i updates) = Inl e \<and> store_error e"
    and "db (snd (upd c i updates)) = db c"
    by simp_all
qed

section \<open>The mock server and the RPC update\<close>

lemma all_success:
  "list_all (\<lambda>(m, h). fst (h request) = JNull \<and> member (snd (h request)) ''success'' = JBoolean True)
     (userImpl @ productImpl @ orderImpl)"
  by (simp add: userImpl_def productImpl_def orderImpl_def member_def)

lemma map_of_fold_update:
  "map_of (fold (\<lambda>(k, v). AList.update k v) source target)
      = map_of target ++ map_of (rev source)"
proof (induction source arbitrary: target)
  case Nil
  show ?case by simp
next
  case (Cons a source)
  obtain k v where a: "a = (k, v)" by (cases a)
  have "map_of (fold (\<lambda>(k, v). AList.update k v) (a # source) target)
      = map_of (AList.update k v target) ++ map_of (rev source)"
    by (simp add: a Cons.IH)
  also have "\<dots> = (map_of target ++ [k \<mapsto> v]) ++ map_of (rev source)"
    by (simp add: update_conv')
  also have "\<dots> = map_of target ++ map_of (rev (a # source))"
    by (simp add: a map_add_assoc)
  finally show ?case .
qed

lemma member_spread:
  "member (spread target source) k
     = (case map_of (rev source) k of Some v \<Rightarrow> v | None \<Rightarrow> member target k)"
  by (simp add: member_def spread_def map_of_fold_update map_add_def split: option.splits)

lemma request_member:
  "k \<in> set user_message_fields
   \<Longrightarrow> member (grpc_updateUser_request i updates) k = js_or (member updates k) (JString '''')"
  unfolding user_message_fields_def grpc_updateUser_request_def
  by (elim set_ConsD[elim_format] disjE) (simp_all add: member_def)

lemma request_unsupplied:
  assumes "k \<in> set user_message_fields" "map_of updates k = None"
  shows "member (grpc_updateUser_request i updates) k = JString ''''"
  using assms(2) by (simp add: request_member[OF assms(1)] js_or_def) (simp add: member_def)

lemma update_user_handler:
  "map_of userImpl ''UpdateUser'' = Some (\<lambda>request.
         (JNull, [(''user'', JObject (spread [(''id'', js_or (member request ''id'') (JNumber 1))]
                                        request)),
                  (''message'', JString ''updated''), (''success'', JBoolean True)]))"
  by (simp add: userImpl_def)

lemma grpc_updateUser_mock:
  "grpc_updateUser userImpl i updates =
     Inr [(''user'', JObject (spread [(''id'', js_or (JNumber i) (JNumber 1))]
                                (grpc_updateUser_request i updates))),
          (''message'', JString ''updated''), (''success'', JBoolean True)]"
proof -
  have "member (grpc_updateUser_request i updates) ''id'' = JNumber i"
    by (simp add: grpc_updateUser_request_def member_def)
  then show ?thesis
    by (simp add: grpc_updateUser_def executeCall_def update_user_handler)
qed

lemma map_of_rev_request:
  "k \<in> set user_message_fields
   \<Longrightarrow> map_of (rev (grpc_updateUser_request i updates)) k
       = Some (member (grpc_updateUser_request i updates) k)"
  unfolding user_message_fields_def grpc_updateUser_request_def
  by (elim set_ConsD[elim_format] disjE) (simp_all add: member_def)

lemma mock_echoes_request:
  assumes "k \<in> set user_message_fields"
  shows "\<exists>response user. grpc_updateUser userImpl i updates = Inr response
      \<and> member response ''user'' = JObject user
      \<and> member user k = member (grpc_updateUser_request i updates) k"
proof -
  let ?user = "spread [(''id'', js_or (JNumber i) (JNumber 1))] (grpc_updateUser_request i updates)"
  let ?response = "[(''user'', JObject ?user), (''message'', JString ''updated''),
      (''success'', JBoolean True)]"
  have "grpc_updateUser userImpl i updates = Inr ?response"
    by (rule grpc_updateUser_mock)
  moreover have "member ?response ''user'' = JObject ?user"
    by (simp add: member_def)
  moreover have "member ?user k = member (grpc_updateUser_request i updates) k"
    by (simp add: member_spread map_of_rev_request[OF assms])
  ultimately show ?thesis by blast
qed

section \<open>Traces of a transaction\<close>

lemma dispatch_all_append:
  "dispatch_all run cl (xs @ ys) =
     (case dispatch_all run cl xs of
        (rs1, cl1) \<Rightarrow> (case dispatch_all run cl1 ys of (rs2, cl2) \<Rightarrow> (rs1 @ rs2, cl2)))"
  by (induction xs arbitrary: cl) (auto split: prod.splits)

lemma first_rejection_append:
  "first_rejection (rs @ ss) = (case first_rejection rs of Some e \<Rightarrow> Some e | None \<Rightarrow> first_rejection ss)"
  by (induction rs rule: first_rejection.induct) auto

lemma dispatched_dispatch_all:
  "dispatch_all run cl qs = (rs, cl') \<Longrightarrow> dispatched cl' = dispatched cl @ qs \<and> length rs = length qs"
  by (induction qs arbitrary: cl rs) (auto simp: client_query_def split: prod.splits)

lemma rollback_trace:
  assumes "dispatch_all run cl0 issued = (outs, cl)"
  shows "\<exists>rolled. dispatch_all run cl0 (issued @ [ROLLBACK]) = (outs @ [rolled], snd (rollback run cl error))
      \<and> fst (rollback run cl error) = settled error rolled"
proof -
  obtain rolled cl' where r: "client_query run cl ROLLBACK = (rolled, cl')"
    by (cases "client_query run cl ROLLBACK")
  have "dispatch_all run cl0 (issued @ [ROLLBACK]) = (outs @ [rolled], cl')"
    by (simp add: dispatch_all_append assms r)
  moreover have "rollback run cl error = (settled error rolled, cl')"
    by (simp add: rollback_def r settled_def split: sum.splits)
  ultimately show ?thesis by simp
qed

section \<open>Amounts as a column takes them\<close>

lemma rescale_integral:
  assumes "m mod 10 ^ e = 0"
  shows "rescale d (m div 10 ^ e) 0 = rescale d m e"
proof -
  from assms obtain q where m: "m = q * 10 ^ e"
    by (metis dvd_div_mult_self mod_eq_0_iff_dvd)
  have q: "m div 10 ^ e = q"
    by (simp add: m)
  show ?thesis
  proof (cases "e \<le> d")
    case True
    then have "(10::int) ^ d = 10 ^ e * 10 ^ (d - e)"
      by (simp add: power_add[symmetric])
    with True show ?thesis
      by (simp add: rescale_def q) (simp add: m)
  next
    case False
    define k where "k = e - d - 1"
    have e: "e = d + (k + 1)"
      using False by (simp add: k_def)
    have p: "(10::int) ^ e = 10 ^ d * (10 * 10 ^ k)"
      by (simp add: e power_add)
    have small: "(5 * 10 ^ k) div (10 * 10 ^ k) = (0::int)"
      by (rule div_pos_pos_trivial) simp_all
    have "(\<bar>m\<bar> + 5 * 10 ^ k) div (10 * 10 ^ k) = \<bar>q\<bar> * 10 ^ d"
    proof -
      have "\<bar>m\<bar> + 5 * 10 ^ k = 5 * 10 ^ k + (\<bar>q\<bar> * 10 ^ d) * (10 * 10 ^ k)"
        by (simp add: m p abs_mult)
      also have "\<dots> div (10 * 10 ^ k) = (5 * 10 ^ k) div (10 * 10 ^ k) + \<bar>q\<bar> * 10 ^ d"
        by (subst div_mult_self1) simp_all
      finally show ?thesis
        by (simp add: small)
    qed
    moreover have "sgn m = sgn q"
      by (simp add: m sgn_mult)
    moreover have "e - d = k + 1" "e - d - 1 = k"
      by (simp_all add: e)
    ultimately have "rescale d m e = sgn q * (\<bar>q\<bar> * 10 ^ d)"
      using False by (simp add: rescale_def)
    also have "\<dots> = q * 10 ^ d"
      by (simp add: mult.assoc[symmetric] sgn_mult_abs)
    finally show ?thesis
      using False by (simp add: rescale_def q)
  qed
qed

lemma stored_amount:
  assumes "column_named t field = Some column" "ctype column = DECIMAL p d"
    "\<bar>rescale d m e\<bar> < 10 ^ p"
  shows "stored s t field (Decimal m e) = Inr (Decimal (rescale d m e) d)"
  using assms by (simp add: stored_def input_def rescale_integral)

section \<open>Properties\<close>




text \<open>
  C2 as stated: for an id that matches no order, \<open>updateOrderStatus\<close> returns null and does
  not throw. On the empty store \<^verbatim>\<open>updateOrderStatus(99999, OrderStatus.CONFIRMED)\<close> throws
  \<^verbatim>\<open>Error('Order with ID 99999 not found')\<close>; it is not the null its sibling
  \<^verbatim>\<open>updateUser\<close> returns for an unknown id.
\<close>

theorem updateOrderStatus_throws_for_unknown_id:
  "fst (updateOrderStatus init_conn 99999 CONFIRMED) = Inl (Error ''Order with ID 99999 not found'')
   \<and> fst (updateOrderStatus init_conn 99999 CONFIRMED) \<noteq> Inr None
   \<and> fst (updateUser init_conn 99999 [(''first_name'', Str ''Updated Name'')]) = Inr None"
proof -
  have "Number 99999 \<notin> set (ids (db init_conn) Orders)"
    by (simp add: ids_def init_conn_def connect_def init_store_def)
  from updateOrderStatus_absent_aux[OF this, of CONFIRMED]
  have "fst (updateOrderStatus init_conn 99999 CONFIRMED)
      = Inl (Error (''Order with ID '' @ show_int 99999 @ '' not found''))"
    by (auto simp: in_integer_range_def)
  moreover have "show_int 99999 = ''99999''"
    by (simp add: show_eval)
  moreover have "fst (updateUser init_conn 99999 [(''first_name'', Str ''Updated Name'')]) = Inr None"
    by code_simp
  ultimately show ?thesis
    by simp
qed

text \<open>
  C2, amended. For every id that matches no order, \<open>updateOrderStatus\<close> throws; the
  \<^verbatim>\<open>UPDATE\<close> is the only statement it sends and the store is as before. When the id is one
  the \<^verbatim>\<open>INTEGER\<close> column can hold, the error thrown is
  \<^verbatim>\<open>Error(`Order with ID ${id} not found`)\<close>, while \<open>getOrderById\<close> of the same id returns
  null and \<open>deleteOrder\<close> of it returns false; when the id is out of that range, the error
  is the store's, which rejects the parameter.
\<close>

theorem updateOrderStatus_not_found:
  assumes "Number i \<notin> set (column_values c Orders ''id'')"
  shows "\<exists>e. updateOrderStatus c i st
           = (Inl e, c\<lparr>sent := sent c @ [Update Orders [''status'']
                                            [Number i, Str (OrderStatus_value st)]]\<rparr>)
         \<and> (in_integer_range i
            \<longrightarrow> e = Error (''Order with ID '' @ show_int i @ '' not found'')
              \<and> fst (getOrderById c i) = Inr None
              \<and> fst (deleteOrder c i) = Inr False)
         \<and> (\<not> in_integer_range i \<longrightarrow> store_error e)"
proof -
  from assms have absent: "Number i \<notin> set (ids (db c) Orders)"
    by (simp add: ids_def column_values_def)
  from updateOrderStatus_absent_aux[OF absent, of st] obtain e where
    e: "updateOrderStatus c i st
           = (Inl e, c\<lparr>sent := sent c @ [Update Orders [''status'']
                                            [Number i, Str (OrderStatus_value st)]]\<rparr>)"
      "if in_integer_range i
       then e = Error (''Order with ID '' @ show_int i @ '' not found'')
       else store_error e"
    by blast
  show ?thesis
  proof (cases "in_integer_range i")
    case True
    with e getOrderById_absent[OF True absent] deleteOrder_absent[OF True absent]
    show ?thesis by simp
  next
    case False
    with e show ?thesis by simp
  qed
qed

theorem updateOrderStatus_not_found_witness:
  "Number 99999 \<notin> set (column_values init_conn Orders ''id'')
   \<and> in_integer_range 99999
   \<and> updateOrderStatus init_conn 99999 SHIPPED
       = (Inl (Error ''Order with ID 99999 not found''),
          init_conn\<lparr>sent := sent init_conn @ [Update Orders [''status''] [Number 99999, Str ''shipped'']]\<rparr>)
   \<and> fst (getOrderById init_conn 99999) = Inr None
   \<and> fst (deleteOrder init_conn 99999) = Inr False
   \<and> \<not> in_integer_range 2147483648
   \<and> (\<exists>e. fst (updateOrderStatus init_conn 2147483648 SHIPPED) = Inl e \<and> store_error e)"
proof -
  have h: "Number j \<notin> set (column_values init_conn Orders ''id'')" for j
    by (simp add: column_values_def init_conn_def connect_def init_store_def)
  have r: "in_integer_range 99999" "\<not> in_integer_range 2147483648"
    by (simp_all add: in_integer_range_def)
  have s: "show_int 99999 = ''99999''"
    by (simp add: show_eval)
  from updateOrderStatus_not_found[OF h, of 99999 SHIPPED] r s
  have "updateOrderStatus init_conn 99999 SHIPPED
       = (Inl (Error ''Order with ID 99999 not found''),
          init_conn\<lparr>sent := sent init_conn @ [Update Orders [''status''] [Number 99999, Str ''shipped'']]\<rparr>)
     \<and> fst (getOrderById init_conn 99999) = Inr None
     \<and> fst (deleteOrder init_conn 99999) = Inr False"
    by auto
  moreover from updateOrderStatus_not_found[OF h, of 2147483648 SHIPPED] r
  have "\<exists>e. fst (updateOrderStatus init_conn 2147483648 SHIPPED) = Inl e \<and> store_error e"
    by auto
  ultimately show ?thesis
    using h r by simp
qed

text \<open>
  C3 as stated: the natural keys of two invocations of the generator never coincide.
  It fails for \<open>generateUsers\<close> and \<open>generateProducts\<close>, which have no counter:
  \<^verbatim>\<open>generateUsers(1)\<close> returns the user testuser1 each time, and it is also the first user
  of \<^verbatim>\<open>generateUsers(3)\<close>; every \<^verbatim>\<open>generateProducts\<close> call starts again at SKU-000001.
\<close>

theorem generated_keys_repeat_across_calls:
  "map username (generateUsers 1) = [''testuser1'']
   \<and> map email (generateUsers 1) = [''testuser1@example.com'']
   \<and> ''testuser1'' \<in> set (map username (generateUsers 3))
   \<and> map sku (generateProducts 1 (\<lambda>i. \<lparr>draw_price = 1050, draw_stock = 7, draw_active = True\<rparr>))
       = [''SKU-000001'']
   \<and> map sku (generateProducts 1 (\<lambda>i. \<lparr>draw_price = 99900, draw_stock = 3, draw_active = False\<rparr>))
       = [''SKU-000001'']"
  by code_simp

text \<open>
  C3, amended. Within one invocation the keys are pairwise distinct: the usernames and the
  emails of \<open>generateUsers\<close>, the skus of \<open>generateProducts\<close> and the order numbers of
  \<open>generateOrders\<close>. The key at a position of \<open>generateUsers\<close> and \<open>generateProducts\<close> is
  fixed by the position, whatever the invocation. The keys of \<open>generateSingleUser\<close>,
  \<open>generateSingleProduct\<close> and \<open>generateSingleOrder\<close> differ between two invocations as soon
  as the timestamp or the random suffix differs.
\<close>

theorem generated_keys_distinct_within_call:
  "distinct (map username (generateUsers count))
   \<and> distinct (map email (generateUsers count))
   \<and> distinct (map sku (generateProducts count draw))
   \<and> distinct (map order_number (generateOrders userIds n stamp suffix amount))
   \<and> (i < count \<longrightarrow>
        username (generateUsers count ! i) = ''testuser'' @ show_nat (i + 1)
        \<and> email (generateUsers count ! i) = ''testuser'' @ show_nat (i + 1) @ ''@example.com''
        \<and> sku (generateProducts count draw ! i) = ''SKU-'' @ padStart 6 CHR ''0'' (show_nat (i + 1)))
   \<and> ((timestamp, randomSuffix) \<noteq> (timestamp', randomSuffix') \<longrightarrow>
        username (generateSingleUser timestamp randomSuffix)
          \<noteq> username (generateSingleUser timestamp' randomSuffix')
        \<and> email (generateSingleUser timestamp randomSuffix)
          \<noteq> email (generateSingleUser timestamp' randomSuffix')
        \<and> sku (generateSingleProduct timestamp randomSuffix)
          \<noteq> sku (generateSingleProduct timestamp' randomSuffix')
        \<and> order_number (generateSingleOrder userId timestamp randomSuffix)
          \<noteq> order_number (generateSingleOrder userId' timestamp' randomSuffix'))"
proof (intro conjI impI)
  show "distinct (map username (generateUsers count))"
    by (rule distinct_usernames)
  show "distinct (map email (generateUsers count))"
    by (rule distinct_emails)
  show "distinct (map sku (generateProducts count draw))"
    by (rule distinct_skus)
  show "distinct (map order_number (generateOrders userIds n stamp suffix amount))"
    by (rule distinct_order_numbers)
next
  assume "i < count"
  then show "username (generateUsers count ! i) = ''testuser'' @ show_nat (i + 1)"
    by (simp add: generateUsers_def)
next
  assume "i < count"
  then show "email (generateUsers count ! i) = ''testuser'' @ show_nat (i + 1) @ ''@example.com''"
    by (simp add: generateUsers_def)
next
  assume "i < count"
  then show "sku (generateProducts count draw ! i)
      = ''SKU-'' @ padStart 6 CHR ''0'' (show_nat (i + 1))"
    by (simp add: generateProducts_def Let_def)
next
  assume ne: "(timestamp, randomSuffix) \<noteq> (timestamp', randomSuffix')"
  from ne show "username (generateSingleUser timestamp randomSuffix)
      \<noteq> username (generateSingleUser timestamp' randomSuffix')"
    by (rule single_keys_differ)
  from ne show "email (generateSingleUser timestamp randomSuffix)
      \<noteq> email (generateSingleUser timestamp' randomSuffix')"
    by (rule single_keys_differ)
  from ne show "sku (generateSingleProduct timestamp randomSuffix)
      \<noteq> sku (generateSingleProduct timestamp' randomSuffix')"
    by (rule single_keys_differ)
  from ne show "order_number (generateSingleOrder userId timestamp randomSuffix)
      \<noteq> order_number (generateSingleOrder userId' timestamp' randomSuffix')"
    by (rule single_keys_differ)
qed

theorem generated_keys_distinct_within_call_witness:
  "distinct (map username (generateUsers 3))
   \<and> distinct (map email (generateUsers 3))
   \<and> username (generateUsers 3 ! 2) = ''testuser3''
   \<and> username (generateSingleUser 1700000000123 ''k3x9qa'')
        \<noteq> username (generateSingleUser 1700000000123 ''b71mzp'')
   \<and> order_number (generateSingleOrder 1 1700000000123 ''k3x9qa'')
        \<noteq> order_number (generateSingleOrder 1 1700000000124 ''k3x9qa'')"
proof -
  have a: "(2::nat) < 3" by simp
  have b: "(1700000000123::nat, ''k3x9qa'') \<noteq> (1700000000123, ''b71mzp'')" by simp
  have c: "(1700000000123::nat, ''k3x9qa'') \<noteq> (1700000000124, ''k3x9qa'')" by simp
  have three: "show_nat (2 + 1) = ''3''" by code_simp
  from generated_keys_distinct_within_call[of 3 _ _ _ _ _ _ 2 1700000000123 "''k3x9qa''"
      1700000000123 "''b71mzp''"]
    generated_keys_distinct_within_call[of 3 _ _ _ _ _ _ 2 1700000000123 "''k3x9qa''"
      1700000000124 "''k3x9qa''" 1 1]
    a b c three
  show ?thesis by simp
qed



text \<open>
  C5 as stated: when a statement fails, the transaction re-throws the original error.
  On a server that accepts \<^verbatim>\<open>BEGIN\<close> and then fails every statement (a connection lost
  after \<^verbatim>\<open>BEGIN\<close>), the statement \<^verbatim>\<open>DELETE FROM users;\<close> fails, the \<^verbatim>\<open>ROLLBACK\<close> in the
  \<^verbatim>\<open>catch\<close> block fails too, and the caller gets the error of the \<^verbatim>\<open>ROLLBACK\<close>, not that of
  the statement.
\<close>

theorem transaction_rethrows_rollback_error:
  "transaction failing_after_begin fresh_client [(''DELETE FROM users;'', None)]
     = (Inl ''ROLLBACK'',
        \<lparr>server = (), dispatched = [BEGIN, (''DELETE FROM users;'', None), ROLLBACK]\<rparr>)"
  by code_simp

text \<open>
  C5, amended. Whatever the server does, the statements a call of \<open>transaction\<close> issues
  and their outcomes \<open>outs\<close> are of one of four kinds. (1) \<^verbatim>\<open>BEGIN\<close>, all the statements in
  order and \<^verbatim>\<open>COMMIT\<close> were issued, none failed, and the call returns. (2) \<^verbatim>\<open>BEGIN\<close> failed
  with \<open>error\<close>: \<^verbatim>\<open>ROLLBACK\<close> is the only other statement issued. (3) \<^verbatim>\<open>BEGIN\<close> succeeded
  and a statement failed, \<open>error\<close> being the first failure in the order of the list: all
  the statements were issued, then \<^verbatim>\<open>ROLLBACK\<close> and no \<^verbatim>\<open>COMMIT\<close>. (4) \<^verbatim>\<open>BEGIN\<close> and all the
  statements succeeded and \<^verbatim>\<open>COMMIT\<close> failed with \<open>error\<close>: \<^verbatim>\<open>ROLLBACK\<close> was issued after
  it. In the kinds (2) to (4) the call throws \<open>error\<close> if the \<^verbatim>\<open>ROLLBACK\<close> succeeded and the
  error of the \<^verbatim>\<open>ROLLBACK\<close> if it failed.
\<close>

theorem transaction_trace:
  "\<exists>issued outs.
     dispatch_all run cl issued = (outs, snd (transaction run cl queries))
     \<and> (issued = BEGIN # queries @ [COMMIT] \<and> first_rejection outs = None
          \<and> fst (transaction run cl queries) = Inr ()
        \<or> (\<exists>error rolled.
              issued = [BEGIN, ROLLBACK] \<and> outs = [Inl error, rolled]
              \<and> fst (transaction run cl queries) = settled error rolled)
        \<or> (\<exists>began results error rolled.
              issued = BEGIN # queries @ [ROLLBACK]
              \<and> outs = Inr began # results @ [rolled]
              \<and> length results = length queries
              \<and> first_rejection results = Some error
              \<and> fst (transaction run cl queries) = settled error rolled)
        \<or> (\<exists>began results error rolled.
              issued = BEGIN # queries @ [COMMIT, ROLLBACK]
              \<and> outs = Inr began # results @ [Inl error, rolled]
              \<and> length results = length queries
              \<and> first_rejection results = None
              \<and> fst (transaction run cl queries) = settled error rolled))"
proof -
  obtain rB cl1 where B: "client_query run cl BEGIN = (rB, cl1)"
    by (cases "client_query run cl BEGIN")
  have dB: "dispatch_all run cl [BEGIN] = ([rB], cl1)"
    by (simp add: B)
  show ?thesis
  proof (cases rB)
    case (Inl error)
    from rollback_trace[OF dB, of error] obtain rolled where
      r: "dispatch_all run cl [BEGIN, ROLLBACK] = ([rB, rolled], snd (rollback run cl1 error))"
        "fst (rollback run cl1 error) = settled error rolled"
      by auto
    have t: "transaction run cl queries = rollback run cl1 error"
      by (simp add: transaction_def B Inl)
    show ?thesis
    proof (intro exI[of _ "[BEGIN, ROLLBACK]"] exI[of _ "[rB, rolled]"] conjI)
      show "dispatch_all run cl [BEGIN, ROLLBACK] = ([rB, rolled], snd (transaction run cl queries))"
        using r(1) by (simp only: t)
      have "\<exists>error rolled'. [BEGIN, ROLLBACK] = [BEGIN, ROLLBACK]
          \<and> [rB, rolled] = [Inl error, rolled']
          \<and> fst (transaction run cl queries) = settled error rolled'"
        using r(2) Inl by (simp add: t)
      then show "[BEGIN, ROLLBACK] = BEGIN # queries @ [COMMIT] \<and> first_rejection [rB, rolled] = None
          \<and> fst (transaction run cl queries) = Inr ()
        \<or> (\<exists>error rolled'.
              [BEGIN, ROLLBACK] = [BEGIN, ROLLBACK] \<and> [rB, rolled] = [Inl error, rolled']
              \<and> fst (transaction run cl queries) = settled error rolled')
        \<or> (\<exists>began results error rolled'.
              [BEGIN, ROLLBACK] = BEGIN # queries @ [ROLLBACK]
              \<and> [rB, rolled] = Inr began # results @ [rolled']
              \<and> length results = length queries
              \<and> first_rejection results = Some error
              \<and> fst (transaction run cl queries) = settled error rolled')
        \<or> (\<exists>began results error rolled'.
              [BEGIN, ROLLBACK] = BEGIN # queries @ [COMMIT, ROLLBACK]
              \<and> [rB, rolled] = Inr began # results @ [Inl error, rolled']
              \<and> length results = length queries
              \<and> first_rejection results = None
              \<and> fst (transaction run cl queries) = settled error rolled')"
        by blast
    qed
  next
    case (Inr began)
    obtain rs cl2 where D: "dispatch_all run cl1 queries = (rs, cl2)"
      by (cases "dispatch_all run cl1 queries")
    have len: "length rs = length queries"
      using dispatched_dispatch_all[OF D] by simp
    have dQ: "dispatch_all run cl (BEGIN # queries) = (rB # rs, cl2)"
      by (simp add: B D)
    show ?thesis
    proof (cases "first_rejection rs")
      case (Some error)
      from rollback_trace[OF dQ, of error] obtain rolled where
        r: "dispatch_all run cl (BEGIN # queries @ [ROLLBACK])
             = (rB # rs @ [rolled], snd (rollback run cl2 error))"
          "fst (rollback run cl2 error) = settled error rolled"
        by auto
      have t: "transaction run cl queries = rollback run cl2 error"
        by (simp add: transaction_def B Inr D Some)
      show ?thesis
      proof (intro exI[of _ "BEGIN # queries @ [ROLLBACK]"] exI[of _ "rB # rs @ [rolled]"] conjI)
        show "dispatch_all run cl (BEGIN # queries @ [ROLLBACK])
            = (rB # rs @ [rolled], snd (transaction run cl queries))"
          using r(1) by (simp only: t)
        have "\<exists>began results error rolled'.
              BEGIN # queries @ [ROLLBACK] = BEGIN # queries @ [ROLLBACK]
              \<and> rB # rs @ [rolled] = Inr began # results @ [rolled']
              \<and> length results = length queries
              \<and> first_rejection results = Some error
              \<and> fst (transaction run cl queries) = settled error rolled'"
          using r(2) Inr Some len by (simp add: t)
        then show "BEGIN # queries @ [ROLLBACK] = BEGIN # queries @ [COMMIT]
            \<and> first_rejection (rB # rs @ [rolled]) = None
            \<and> fst (transaction run cl queries) = Inr ()
          \<or> (\<exists>error rolled'.
                BEGIN # queries @ [ROLLBACK] = [BEGIN, ROLLBACK]
                \<and> rB # rs @ [rolled] = [Inl error, rolled']
                \<and> fst (transaction run cl queries) = settled error rolled')
          \<or> (\<exists>began results error rolled'.
                BEGIN # queries @ [ROLLBACK] = BEGIN # queries @ [ROLLBACK]
                \<and> rB # rs @ [rolled] = Inr began # results @ [rolled']
                \<and> length results = length queries
                \<and> first_rejection results = Some error
                \<and> fst (transaction run cl queries) = settled error rolled')
          \<or> (\<exists>began results error rolled'.
                BEGIN # queries @ [ROLLBACK] = BEGIN # queries @ [COMMIT, ROLLBACK]
                \<and> rB # rs @ [rolled] = Inr began # results @ [Inl error, rolled']
                \<and> length results = length queries
                \<and> first_rejection results = None
                \<and> fst (transaction run cl queries) = settled error rolled')"
          by blast
      qed
    next
      case None
      obtain rC cl3 where C: "client_query run cl2 COMMIT = (rC, cl3)"
        by (cases "client_query run cl2 COMMIT")
      have dC: "dispatch_all run cl (BEGIN # queries @ [COMMIT]) = (rB # rs @ [rC], cl3)"
        by (simp add: B D C dispatch_all_append)
      show ?thesis
      proof (cases rC)
        case (Inl error)
        from rollback_trace[OF dC, of error] obtain rolled where
          r: "dispatch_all run cl (BEGIN # queries @ [COMMIT, ROLLBACK])
               = (rB # rs @ [rC, rolled], snd (rollback run cl3 error))"
            "fst (rollback run cl3 error) = settled error rolled"
          by auto
        have t: "transaction run cl queries = rollback run cl3 error"
          by (simp add: transaction_def B Inr D None C Inl)
        show ?thesis
        proof (intro exI[of _ "BEGIN # queries @ [COMMIT, ROLLBACK]"]
            exI[of _ "rB # rs @ [rC, rolled]"] conjI)
          show "dispatch_all run cl (BEGIN # queries @ [COMMIT, ROLLBACK])
              = (rB # rs @ [rC, rolled], snd (transaction run cl queries))"
            using r(1) by (simp only: t)
          have "\<exists>began results error rolled'.
                BEGIN # queries @ [COMMIT, ROLLBACK] = BEGIN # queries @ [COMMIT, ROLLBACK]
                \<and> rB # rs @ [rC, rolled] = Inr began # results @ [Inl error, rolled']
                \<and> length results = length queries
                \<and> first_rejection results = None
                \<and> fst (transaction run cl queries) = settled error rolled'"
            using r(2) \<open>rB = Inr began\<close> None Inl len by (simp add: t)
          then show "BEGIN # queries @ [COMMIT, ROLLBACK] = BEGIN # queries @ [COMMIT]
              \<and> first_rejection (rB # rs @ [rC, rolled]) = None
              \<and> fst (transaction run cl queries) = Inr ()
            \<or> (\<exists>error rolled'.
                  BEGIN # queries @ [COMMIT, ROLLBACK] = [BEGIN, ROLLBACK]
                  \<and> rB # rs @ [rC, rolled] = [Inl error, rolled']
                  \<and> fst (transaction run cl queries) = settled error rolled')
            \<or> (\<exists>began results error rolled'.
                  BEGIN # queries @ [COMMIT, ROLLBACK] = BEGIN # queries @ [ROLLBACK]
                  \<and> rB # rs @ [rC, rolled] = Inr began # results @ [rolled']
                  \<and> length results = length queries
                  \<and> first_rejection results = Some error
                  \<and> fst (transaction run cl queries) = settled error rolled')
            \<or> (\<exists>began results error rolled'.
                  BEGIN # queries @ [COMMIT, ROLLBACK] = BEGIN # queries @ [COMMIT, ROLLBACK]
                  \<and> rB # rs @ [rC, rolled] = Inr began # results @ [Inl error, rolled']
                  \<and> length results = length queries
                  \<and> first_rejection results = None
                  \<and> fst (transaction run cl queries) = settled error rolled')"
            by blast
        qed
      next
        case (Inr committed)
        have t: "transaction run cl queries = (Inr (), cl3)"
          by (simp add: transaction_def B \<open>rB = Inr began\<close> D None C Inr)
        have f: "first_rejection (rB # rs @ [rC]) = None"
          by (simp add: \<open>rB = Inr began\<close> Inr None first_rejection_append)
        show ?thesis
          using dC f
          by (intro exI[of _ "BEGIN # queries @ [COMMIT]"] exI[of _ "rB # rs @ [rC]"])
            (simp add: t)
      qed
    qed
  qed
qed

theorem transaction_trace_witness:
  "\<exists>issued outs.
     dispatch_all failing_after_begin fresh_client issued
       = (outs, snd (transaction failing_after_begin fresh_client [(''DELETE FROM users;'', None)]))
     \<and> (issued = BEGIN # [(''DELETE FROM users;'', None)] @ [COMMIT] \<and> first_rejection outs = None
          \<and> fst (transaction failing_after_begin fresh_client [(''DELETE FROM users;'', None)]) = Inr ()
        \<or> (\<exists>error rolled.
              issued = [BEGIN, ROLLBACK] \<and> outs = [Inl error, rolled]
              \<and> fst (transaction failing_after_begin fresh_client [(''DELETE FROM users;'', None)])
                  = settled error rolled)
        \<or> (\<exists>began results error rolled.
              issued = BEGIN # [(''DELETE FROM users;'', None)] @ [ROLLBACK]
              \<and> outs = Inr began # results @ [rolled]
              \<and> length results = length [(''DELETE FROM users;'', None) :: query_config]
              \<and> first_rejection results = Some error
              \<and> fst (transaction failing_after_begin fresh_client [(''DELETE FROM users;'', None)])
                  = settled error rolled)
        \<or> (\<exists>began results error rolled.
              issued = BEGIN # [(''DELETE FROM users;'', None)] @ [COMMIT, ROLLBACK]
              \<and> outs = Inr began # results @ [Inl error, rolled]
              \<and> length results = length [(''DELETE FROM users;'', None) :: query_config]
              \<and> first_rejection results = None
              \<and> fst (transaction failing_after_begin fresh_client [(''DELETE FROM users;'', None)])
                  = settled error rolled))"
  by (rule transaction_trace)

text \<open>
  C6. In every reachable state of the store no two users have the same username, no two
  users the same email and no two products the same sku. A \<open>createUser\<close> whose username
  or email is already stored, and a \<open>createProduct\<close> whose sku is already stored, fails
  with an error of the store and leaves every table as it was.
\<close>

theorem natural_keys_unique:
  assumes "reachable c"
  shows "distinct (column_values c Users ''username'')
     \<and> distinct (column_values c Users ''email'')
     \<and> distinct (column_values c Products ''sku'')
     \<and> (Str (username user) \<in> set (column_values c Users ''username'')
          \<or> Str (email user) \<in> set (column_values c Users ''email'')
        \<longrightarrow> (\<exists>e. fst (createUser c user) = Inl e \<and> store_error e)
            \<and> rows (db (snd (createUser c user))) = rows (db c))
     \<and> (Str (sku product) \<in> set (column_values c Products ''sku'')
        \<longrightarrow> (\<exists>e. fst (createProduct c product) = Inl e \<and> store_error e)
            \<and> rows (db (snd (createProduct c product))) = rows (db c))"
proof -
  have cons: "consistent (db c)"
    using assms by (rule reachable_consistent)
  show ?thesis
    using natural_keys_distinct[OF cons] createUser_duplicate[OF cons, of user]
      createProduct_duplicate[OF cons, of product]
    by (simp add: in_column_values)
qed

theorem natural_keys_unique_witness:
  "reachable ann_stored
   \<and> column_values ann_stored Users ''username'' = [Str ''ann'']
   \<and> distinct (column_values ann_stored Users ''username'')
   \<and> (\<exists>e. fst (createUser ann_stored ann) = Inl e \<and> store_error e)
   \<and> rows (db (snd (createUser ann_stored ann))) = rows (db ann_stored)"
proof -
  have r: "reachable ann_stored"
    unfolding ann_stored_def init_conn_def
    by (intro reachable.tick reachable.createUser reachable.start)
  have v: "column_values ann_stored Users ''username'' = [Str ''ann'']"
    by code_simp
  then have d: "Str (username ann) \<in> set (column_values ann_stored Users ''username'')"
    by (simp add: ann_def)
  from natural_keys_unique[OF r, of ann] r v d show ?thesis
    by simp
qed




text \<open>
  C8. The status strings of the RPC layer (\<open>STATUS\<close>) and of the database layer
  (\<open>OrderStatus\<close>) have exactly pending, shipped, delivered and cancelled in common; the only
  string of the database layer that the RPC layer lacks is confirmed, and the only string of
  the RPC layer that the database layer lacks is processing.
\<close>

theorem status_vocabularies_differ_in_one:
  "set STATUS_values \<inter> set OrderStatus_values
     = {''pending'', ''shipped'', ''delivered'', ''cancelled''}
   \<and> set OrderStatus_values - set STATUS_values = {''confirmed''}
   \<and> set STATUS_values - set OrderStatus_values = {''processing''}"
  by (auto simp: STATUS_values_def STATUS_def OrderStatus_values_def OrderStatus_members_def)

text \<open>
  C9. Whatever the request, every handler of the mock server calls back with a null error
  and a response with \<open>success: true\<close>. The default id is where the code departs from the
  claim: \<^verbatim>\<open>UpdateUser\<close> and \<^verbatim>\<open>UpdateProduct\<close> build
  \<^verbatim>\<open>{ id: call.request.id || 1, ...call.request }\<close>, and the spread writes the request's own
  \<open>id\<close> back over the default. A request with id 0 (what an unset id arrives as, and what
  \<^verbatim>\<open>grpcService.updateUser(0, ...)\<close> sends) gets an entity with id 0, where
  \<^verbatim>\<open>UpdateOrderStatus\<close>, which has no spread, answers with the default 1.
\<close>

theorem mock_update_loses_default_id:
  "list_all (\<lambda>(method, handle). fst (handle request) = JNull
        \<and> member (snd (handle request)) ''success'' = JBoolean True)
     (userImpl @ productImpl @ orderImpl)
   \<and> executeCall userImpl ''UpdateUser'' [(''id'', JNumber 0), (''username'', JString ''bob'')]
     = Inr [(''user'', JObject [(''id'', JNumber 0), (''username'', JString ''bob'')]),
            (''message'', JString ''updated''), (''success'', JBoolean True)]
   \<and> executeCall productImpl ''UpdateProduct'' [(''id'', JNumber 0), (''sku'', JString ''SKU-000001'')]
     = Inr [(''product'', JObject [(''id'', JNumber 0), (''sku'', JString ''SKU-000001'')]),
            (''message'', JString ''updated''), (''success'', JBoolean True)]
   \<and> executeCall orderImpl ''UpdateOrderStatus'' [(''id'', JNumber 0), (''status'', JString ''shipped'')]
     = Inr [(''order'', JObject [(''id'', JNumber 1), (''status'', JString ''shipped'')]),
            (''message'', JString ''updated''), (''success'', JBoolean True)]"
proof (intro conjI)
  show "list_all (\<lambda>(method, handle). fst (handle request) = JNull
        \<and> member (snd (handle request)) ''success'' = JBoolean True)
     (userImpl @ productImpl @ orderImpl)"
    by (rule all_success)
qed code_simp+

text \<open>
  C10. When the updates object has no key other than \<open>id\<close> and \<open>created_at\<close> (it may be
  empty), \<open>updateUser\<close> and \<open>updateProduct\<close> are \<open>getUserById\<close> and \<open>getProductById\<close>: the
  one statement sent is the \<^verbatim>\<open>SELECT\<close> by id, no \<^verbatim>\<open>UPDATE\<close>, and the store, \<open>updated_at\<close>
  included, is as before. For an id the \<^verbatim>\<open>INTEGER\<close> column can hold, the result is the record
  stored under the id (or null).
\<close>

theorem update_without_updatable_keys:
  assumes "set (map fst updates) \<subseteq> {''id'', ''created_at''}"
  shows "updateUser c i updates = getUserById c i
     \<and> updateProduct c i updates = getProductById c i
     \<and> snd (updateUser c i updates) = c\<lparr>sent := sent c @ [Select Users ''id'' (Number i)]\<rparr>
     \<and> snd (updateProduct c i updates) = c\<lparr>sent := sent c @ [Select Products ''id'' (Number i)]\<rparr>
     \<and> db (snd (updateUser c i updates)) = db c
     \<and> db (snd (updateProduct c i updates)) = db c
     \<and> (in_integer_range i
        \<longrightarrow> fst (updateUser c i updates)
              = Inr (find (matches ''id'' (Number i)) (rows (db c) Users))
          \<and> fst (updateProduct c i updates)
              = Inr (find (matches ''id'' (Number i)) (rows (db c) Products)))"
  using c10_aux[OF assms, of c i]
  by (simp add: getUserById_conn getProductById_conn getUserById_eval getProductById_eval)

theorem update_without_updatable_keys_witness:
  "set (map fst [(''id'', Number 7), (''created_at'', Timestamp 3)]) \<subseteq> {''id'', ''created_at''}
   \<and> in_integer_range 1
   \<and> updateUser ann_stored 1 [(''id'', Number 7), (''created_at'', Timestamp 3)]
       = (Inr (Some ann_row), ann_stored\<lparr>sent := sent ann_stored @ [Select Users ''id'' (Number 1)]\<rparr>)
   \<and> db (snd (updateProduct widget_stored 1 [(''id'', Number 7), (''created_at'', Timestamp 3)]))
       = db widget_stored
   \<and> updateUser ann_stored 1 [] = getUserById ann_stored 1"
proof -
  have h: "set (map fst [(''id'', Number 7), (''created_at'', Timestamp 3)]) \<subseteq> {''id'', ''created_at''}"
    by simp
  have h0: "set (map fst ([] :: (string \<times> val) list)) \<subseteq> {''id'', ''created_at''}"
    by simp
  have r: "in_integer_range 1"
    by (simp add: in_integer_range_def)
  have f: "find (matches ''id'' (Number 1)) (rows (db ann_stored) Users) = Some ann_row"
    by code_simp
  from update_without_updatable_keys[OF h, of ann_stored 1] r
  have "fst (updateUser ann_stored 1 [(''id'', Number 7), (''created_at'', Timestamp 3)])
        = Inr (find (matches ''id'' (Number 1)) (rows (db ann_stored) Users))
      \<and> snd (updateUser ann_stored 1 [(''id'', Number 7), (''created_at'', Timestamp 3)])
        = ann_stored\<lparr>sent := sent ann_stored @ [Select Users ''id'' (Number 1)]\<rparr>"
    by blast
  with f have "updateUser ann_stored 1 [(''id'', Number 7), (''created_at'', Timestamp 3)]
       = (Inr (Some ann_row), ann_stored\<lparr>sent := sent ann_stored @ [Select Users ''id'' (Number 1)]\<rparr>)"
    by (simp add: prod_eq_iff)
  moreover from update_without_updatable_keys[OF h, of widget_stored 1]
  have "db (snd (updateProduct widget_stored 1 [(''id'', Number 7), (''created_at'', Timestamp 3)]))
       = db widget_stored"
    by blast
  moreover from update_without_updatable_keys[OF h0, of ann_stored 1]
  have "updateUser ann_stored 1 [] = getUserById ann_stored 1"
    by blast
  ultimately show ?thesis
    using h r by simp
qed

end
